theory Spec2Isabelle
  imports Main "HOL-Library.AList"
begin

section \<open>Data model of \<^verbatim>\<open>edb/schema/referencing.py\<close>\<close>

text \<open>
  Schema objects are identified by a stable id; names, metaclasses and
  command-context classes are Python strings or classes and are modelled by
  their names.
\<close>

type_synonym obj = nat
type_synonym sname = string
type_synonym refname = string
type_synonym mcls = string
type_synonym ctxcls = string

text \<open>\<^verbatim>\<open>so.RefDict\<close>: one slot of referenced children on a referrer class.\<close>

record refdict =
  attr :: string
  backref_attr :: string
  requires_explicit_overloaded :: bool

text \<open>
  The schema snapshot, by the accessors the file calls on objects
  (\<^verbatim>\<open>obj.get_name(schema)\<close>, \<^verbatim>\<open>obj.get_bases(schema).objects(schema)\<close>, ...).
  The store itself (\<^verbatim>\<open>edb/schema/schema.py\<close>, \<^verbatim>\<open>objects.py\<close>) is not part of the
  sources, so a snapshot is the record of what these accessors return.
  A reference collection is an ordered mapping from refnames to objects;
  \<^verbatim>\<open>get_field_value\<close> reads the collection stored under a RefDict's \<^verbatim>\<open>attr\<close>,
  \<^verbatim>\<open>get_field_value_obj\<close> the object stored under its \<^verbatim>\<open>backref_attr\<close>.
\<close>

record schema =
  get_name :: "obj \<Rightarrow> sname"
  get_shortname :: "obj \<Rightarrow> sname"
  get_bases :: "obj \<Rightarrow> obj list"
  get_is_final :: "obj \<Rightarrow> bool"
  get_is_owned :: "obj \<Rightarrow> bool"
  get_is_derived :: "obj \<Rightarrow> bool"
  generic :: "obj \<Rightarrow> bool"
  get_referrer :: "obj \<Rightarrow> obj option"
  get_field_value :: "obj \<Rightarrow> string \<Rightarrow> (refname \<times> obj) list"
  get_field_value_obj :: "obj \<Rightarrow> string \<Rightarrow> obj"
  children :: "obj \<Rightarrow> obj list"
  ordered_descendants :: "obj \<Rightarrow> obj list"

text \<open>Commands: the delta kinds the file instantiates, and a node of the delta tree.\<close>

datatype cmdtype =
    DeltaRoot
  | CreateObject
  | AlterObject
  | DeleteObject
  | RebaseInheritingObject
  | RenameObject
  | AlterOwned

datatype val = VBool bool | VObj obj | VObjList "obj list" | VName sname

record cmd_head =
  kind :: cmdtype
  cmd_mcls :: mcls
  classname :: sname
  scls :: "obj option"
  attrs :: "(string \<times> val) list"
  if_exists :: bool
  if_not_exists :: bool
  implicit :: bool
  ref_op_propagated :: bool
  added_bases :: "sname list"
  removed_bases :: "sname list"
  new_name :: "string option"

datatype command = Cmd (head: cmd_head) (ops: "command list")

text \<open>
  Errors raised by the file. \<^verbatim>\<open>InvariantViolation\<close> is the specification's name
  for internal errors; no statement of \<^verbatim>\<open>referencing.py\<close> raises an exception of
  that name. An error message is kept by its fixed text (without the
  formatted names and the backquotes), the object it is about and the
  objects it lists: in order where the source builds a list, as a set where
  it iterates over a Python set. \<^verbatim>\<open>AttributeError\<close> is what Python raises when
  \<^verbatim>\<open>self.scls\<close> is read on a command that is not bound to an object, or
  \<^verbatim>\<open>objects\<close> is called on a value that is not an object list.
\<close>

datatype details = NoDetails | InOrder "obj list" | Unordered "obj set"

datatype error =
    RuntimeError string
  | TypeError string
  | AttributeError string
  | AssertionError
  | SchemaError string obj details
  | SchemaDefinitionError string obj details
  | InvalidDefinitionError string obj
  | InvariantViolation string

text \<open>
  \<^verbatim>\<open>sd.CommandContext\<close>: the stack of frames (innermost last) and the flags
  the file reads. A frame records the classes it is an instance of (its MRO),
  the command that opened it and that command's object.
\<close>

record frame =
  fr_mro :: "ctxcls list"
  fr_op :: command
  fr_scls :: obj

record command_context =
  stack :: "frame list"
  canonical :: bool
  declarative :: bool
  enable_recursion :: bool
  disable_dep_verification :: bool
  renamed_objs :: "obj set"

text \<open>
  The collaborators the file calls and that are not part of the sources
  (the class registry, the name utilities of \<^verbatim>\<open>edb/schema/name.py\<close>, the generic
  delta framework of \<^verbatim>\<open>edb/schema/delta.py\<close> and \<^verbatim>\<open>inheriting.py\<close>) are
  parameters of the model, collected in one record. A command class is the
  pair of its delta kind and its schema metaclass.
\<close>

record env =
  type_of :: "obj \<Rightarrow> mcls"
  is_InheritingObject :: "mcls \<Rightarrow> bool"
  is_ReferencedInheritingObjectCommand :: "cmdtype \<times> mcls \<Rightarrow> bool"
  referrer_context_class :: "cmdtype \<times> mcls \<Rightarrow> ctxcls option"
  context_class_mro :: "cmdtype \<times> mcls \<Rightarrow> ctxcls list"
  get_refdict_for_class :: "mcls \<Rightarrow> mcls \<Rightarrow> refdict"
  get_refdicts :: "mcls \<Rightarrow> refdict list"
  get_default_base_name :: "mcls \<Rightarrow> sname option"
  get_key_for_name :: "mcls \<Rightarrow> string \<Rightarrow> schema \<Rightarrow> sname \<Rightarrow> refname"
  get_key_for :: "mcls \<Rightarrow> string \<Rightarrow> schema \<Rightarrow> obj \<Rightarrow> refname"
  shortname_from_fullname :: "sname \<Rightarrow> sname"
  get_specialized_name :: "sname \<Rightarrow> sname \<Rightarrow> string list \<Rightarrow> string"
  Name_new :: "string \<Rightarrow> string \<Rightarrow> sname"
  Name_module :: "sname \<Rightarrow> string"
  Name_is_qualified :: "string \<Rightarrow> bool"
  ast_to_object_shell_name :: "string \<times> string option \<Rightarrow> schema \<Rightarrow> mcls \<Rightarrow> sname"
  super_classname_from_ast :: "schema \<Rightarrow> string \<times> string option \<Rightarrow> command_context \<Rightarrow> sname"
  add_classref :: "schema \<Rightarrow> obj \<Rightarrow> string \<Rightarrow> obj \<Rightarrow> schema"
  del_classref :: "schema \<Rightarrow> obj \<Rightarrow> string \<Rightarrow> refname \<Rightarrow> schema"
  allow_ref_propagation :: "obj \<Rightarrow> schema \<Rightarrow> command_context \<Rightarrow> refdict \<Rightarrow> bool"
  in_deletion :: "command_context \<Rightarrow> nat \<Rightarrow> bool"
  cmd_apply :: "command \<Rightarrow> schema \<Rightarrow> command_context \<Rightarrow> error + schema"
  inherit_fields :: "command \<Rightarrow> schema \<Rightarrow> command_context \<Rightarrow> obj list \<Rightarrow> bool \<Rightarrow> error + schema"
  super_create_begin :: "command \<Rightarrow> schema \<Rightarrow> command_context \<Rightarrow> error + command \<times> schema"
  super_alter_begin :: "command \<Rightarrow> schema \<Rightarrow> command_context \<Rightarrow> error + schema"
  super_rename_begin :: "command \<Rightarrow> schema \<Rightarrow> command_context \<Rightarrow> error + schema"
  rename_cmd_from_ast :: "cmdtype \<times> mcls \<Rightarrow> schema \<Rightarrow> string \<Rightarrow> command_context \<Rightarrow> command"
  get_command_stack :: "obj \<Rightarrow> schema \<Rightarrow> command_context \<Rightarrow> cmdtype \<Rightarrow> command \<times> command"
  default_context :: command_context

section \<open>Commands and contexts\<close>

text \<open>The class of a command object: \<^verbatim>\<open>type(self)\<close>.\<close>

definition cmd_class :: "command \<Rightarrow> cmdtype \<times> mcls" where
  "cmd_class c = (kind (head c), cmd_mcls (head c))"

text \<open>
  Modelled from the spec: \<^verbatim>\<open>sd.Command.add\<close>, \<^verbatim>\<open>set_attribute_value\<close> and
  \<^verbatim>\<open>get_attribute_value\<close> are not in the sources. A command is a node
  "carrying (classname, attribute-value assignments, nested commands)":
  \<^verbatim>\<open>add\<close> appends a nested command, the attribute functions write and read
  one assignment.
\<close>

definition add :: "command \<Rightarrow> command \<Rightarrow> command" where
  "add self c = Cmd (head self) (ops self @ [c])"

definition set_attribute_value :: "command \<Rightarrow> string \<Rightarrow> val \<Rightarrow> command" where
  "set_attribute_value self k v =
     Cmd ((head self)\<lparr>attrs := AList.update k v (attrs (head self))\<rparr>) (ops self)"

definition get_attribute_value :: "command \<Rightarrow> string \<Rightarrow> val option" where
  "get_attribute_value self k = map_of (attrs (head self)) k"

text \<open>Python truthiness of an attribute value (\<^verbatim>\<open>None\<close> when unset).\<close>

fun truthy :: "val option \<Rightarrow> bool" where
  "truthy None = False"
| "truthy (Some (VBool b)) = b"
| "truthy (Some (VObjList xs)) = (xs \<noteq> [])"
| "truthy (Some (VObj _)) = True"
| "truthy (Some (VName n)) = (n \<noteq> [])"

text \<open>\<^verbatim>\<open>bases.objects(schema)\<close>: only an object list has the method.\<close>

fun objects :: "val \<Rightarrow> error + obj list" where
  "objects (VObjList xs) = Inr xs"
| "objects _ = Inl (AttributeError ''objects'')"

text \<open>
  Modelled from the spec: a command class instantiated with keyword fields
  (\<^verbatim>\<open>cmdcls(classname=..., ...)\<close>) and \<^verbatim>\<open>obj.init_delta_command(schema, cmdtype, **kwargs)\<close>
  of \<^verbatim>\<open>objects.py\<close>. The latter gives the command of the requested kind for
  the object's class, named after the object and bound to it, as
  \<^verbatim>\<open>sd.get_object_delta_command(objtype=type(self), cmdtype=..., name=...)\<close> in
  \<^verbatim>\<open>derive_ref\<close>; the keyword arguments set fields of the command (the
  identity when there are none).
\<close>

definition new_cmd :: "cmdtype \<times> mcls \<Rightarrow> sname \<Rightarrow> command" where
  "new_cmd cls name =
     Cmd \<lparr>kind = fst cls, cmd_mcls = snd cls, classname = name, scls = None,
          attrs = [], if_exists = False, if_not_exists = False, implicit = False,
          ref_op_propagated = False, added_bases = [], removed_bases = [],
          new_name = None\<rparr> []"

definition init_delta_command ::
  "env \<Rightarrow> obj \<Rightarrow> schema \<Rightarrow> cmdtype \<Rightarrow> (cmd_head \<Rightarrow> cmd_head) \<Rightarrow> command" where
  "init_delta_command E self schema cmdtype kwargs =
     (case new_cmd (cmdtype, type_of E self) (get_name schema self) of
        Cmd h cs \<Rightarrow> Cmd (kwargs (h\<lparr>scls := Some self\<rparr>)) cs)"

text \<open>
  Modelled from the spec: \<^verbatim>\<open>CommandContext.get(ctxcls)\<close> "find[s] the innermost
  frame of a given referrer-command type"; \<^verbatim>\<open>cmd.new_context(schema, context, scls)\<close>
  pushes the frame of the command for the duration of a nested block.
\<close>

definition context_get :: "command_context \<Rightarrow> ctxcls \<Rightarrow> frame option" where
  "context_get context c = find (\<lambda>item. c \<in> set (fr_mro item)) (rev (stack context))"

definition new_context :: "env \<Rightarrow> command \<Rightarrow> command_context \<Rightarrow> obj \<Rightarrow> command_context" where
  "new_context E cmd context scls' =
     context\<lparr>stack := stack context @
       [\<lparr>fr_mro = context_class_mro E (cmd_class cmd), fr_op = cmd, fr_scls = scls'\<rparr>]\<rparr>"

subsection \<open>Referrer context lookup (\<^verbatim>\<open>ReferencedObjectCommandBase\<close>)\<close>

definition get_referrer_context_class :: "env \<Rightarrow> cmdtype \<times> mcls \<Rightarrow> error + ctxcls" where
  "get_referrer_context_class E cls =
     (case referrer_context_class E cls of
        None \<Rightarrow> Inl (TypeError ''referrer_context_class is not defined'')
      | Some c \<Rightarrow> Inr c)"

definition get_referrer_context ::
  "env \<Rightarrow> cmdtype \<times> mcls \<Rightarrow> command_context \<Rightarrow> error + frame option" where
  "get_referrer_context E cls context =
     (case get_referrer_context_class E cls of
        Inl e \<Rightarrow> Inl e
      | Inr c \<Rightarrow> Inr (context_get context c))"

definition get_referrer_context_or_die ::
  "env \<Rightarrow> cmdtype \<times> mcls \<Rightarrow> command_context \<Rightarrow> error + frame" where
  "get_referrer_context_or_die E cls context =
     (case get_referrer_context E cls context of
        Inl e \<Rightarrow> Inl e
      | Inr None \<Rightarrow> Inl (RuntimeError ''no referrer context'')
      | Inr (Some ctx) \<Rightarrow> Inr ctx)"

subsection \<open>Name derivation (\<^verbatim>\<open>ReferencedObjectCommand\<close>)\<close>

definition classname_quals_from_name :: "sname \<Rightarrow> string list" where
  "classname_quals_from_name name = []"

definition classname_from_name :: "env \<Rightarrow> sname \<Rightarrow> sname \<Rightarrow> sname" where
  "classname_from_name E name referrer_name =
     (let base_name = shortname_from_fullname E name;
          quals = classname_quals_from_name name;
          pnn = get_specialized_name E base_name referrer_name quals
      in Name_new E pnn (Name_module E referrer_name))"

section \<open>Implicit bases\<close>

text \<open>\<^verbatim>\<open>ReferencedInheritingObject.get_implicit_bases\<close>.\<close>

definition get_implicit_bases :: "schema \<Rightarrow> obj \<Rightarrow> obj list" where
  "get_implicit_bases schema self = filter (\<lambda>b. \<not> generic schema b) (get_bases schema self)"

text \<open>
  \<^verbatim>\<open>ReferencedInheritingObjectCommand._get_implicit_ref_bases\<close>: one lookup per
  base of the referrer, in the order of the bases.
\<close>

definition implicit_ref_base :: "env \<Rightarrow> schema \<Rightarrow> obj \<Rightarrow> string \<Rightarrow> sname \<Rightarrow> obj \<Rightarrow> obj option" where
  "implicit_ref_base E schema referrer referrer_field fq_name ref_base =
     (let fq_name_in_child = classname_from_name E fq_name (get_name schema ref_base);
          refname = get_key_for_name E (type_of E referrer) referrer_field schema fq_name_in_child;
          parent_coll = get_field_value schema ref_base referrer_field
      in case map_of parent_coll refname of
           None \<Rightarrow> None
         | Some parent_item \<Rightarrow>
             if \<not> get_is_final schema parent_item then Some parent_item else None)"

definition get_implicit_ref_bases :: "env \<Rightarrow> schema \<Rightarrow> obj \<Rightarrow> string \<Rightarrow> sname \<Rightarrow> obj list" where
  "get_implicit_ref_bases E schema referrer referrer_field fq_name =
     List.map_filter (implicit_ref_base E schema referrer referrer_field fq_name)
       (get_bases schema referrer)"

text \<open>
  Modelled from the spec: \<^verbatim>\<open>inheriting.delta_bases(old, new)\<close> is not in the sources;
  it "returns the minimum edit to transform current into target preserving
  order", as the pair (removed, added): the current names that the target
  lacks and the target names that the current list lacks.
\<close>

definition delta_bases :: "sname list \<Rightarrow> sname list \<Rightarrow> sname list \<times> sname list" where
  "delta_bases old_bases new_bases =
     (filter (\<lambda>b. b \<notin> set new_bases) old_bases, filter (\<lambda>b. b \<notin> set old_bases) new_bases)"

text \<open>\<^verbatim>\<open>ReferencedInheritingObjectCommand.get_ref_implicit_base_delta\<close>.\<close>

definition explicit_bases_of :: "env \<Rightarrow> schema \<Rightarrow> obj \<Rightarrow> obj list" where
  "explicit_bases_of E schema refcls =
     (let child_bases = get_bases schema refcls;
          default_base = get_default_base_name E (type_of E refcls)
      in filter (\<lambda>b. generic schema b \<and> Some (get_name schema b) \<noteq> default_base) child_bases)"

definition get_ref_implicit_base_delta ::
  "env \<Rightarrow> schema \<Rightarrow> obj \<Rightarrow> obj list \<Rightarrow> sname list \<times> sname list" where
  "get_ref_implicit_base_delta E schema refcls implicit_bases =
     (let child_bases = get_bases schema refcls;
          explicit_bases = explicit_bases_of E schema refcls;
          new_bases = implicit_bases @ explicit_bases
      in delta_bases (map (get_name schema) child_bases) (map (get_name schema) new_bases))"

section \<open>Validation (\<^verbatim>\<open>ReferencedInheritingObjectCommand._validate\<close>)\<close>

text \<open>
  The loop that collects the referrers of the implicit bases; the
  \<^verbatim>\<open>assert bref is not None\<close> is the error branch.
\<close>

primrec ancestry :: "schema \<Rightarrow> obj list \<Rightarrow> error + obj list" where
  "ancestry schema [] = Inr []"
| "ancestry schema (ob # rest) =
     (case get_referrer schema ob of
        None \<Rightarrow> Inl AssertionError
      | Some bref \<Rightarrow>
          (case ancestry schema rest of
             Inl e \<Rightarrow> Inl e
           | Inr brefs \<Rightarrow> Inr (bref # brefs)))"

definition validate :: "env \<Rightarrow> command \<Rightarrow> schema \<Rightarrow> command_context \<Rightarrow> error + unit" where
  "validate E self schema context =
     (case scls (head self) of
        None \<Rightarrow> Inl (AttributeError ''scls'')
      | Some scls' \<Rightarrow>
          let implicit_bases = filter (\<lambda>b. \<not> generic schema b) (get_bases schema scls') in
          (case get_referrer_context_or_die E (cmd_class self) context of
             Inl e \<Rightarrow> Inl e
           | Inr referrer_ctx \<Rightarrow>
               let objcls = cmd_mcls (head self);
                   referrer_class = cmd_mcls (head (fr_op referrer_ctx));
                   refdict = get_refdict_for_class E referrer_class objcls
               in if declarative context \<and> get_is_owned schema scls' then
                    if implicit_bases \<noteq> [] \<and> requires_explicit_overloaded refdict
                       \<and> \<not> truthy (get_attribute_value self ''declared_overloaded'')
                    then (case ancestry schema implicit_bases of
                            Inl e \<Rightarrow> Inl e
                          | Inr brefs \<Rightarrow>
                              Inl (SchemaDefinitionError
                                ''must be declared using the overloaded keyword'' scls'
                                (InOrder brefs)))
                    else if implicit_bases = []
                       \<and> truthy (get_attribute_value self ''declared_overloaded'')
                    then Inl (SchemaDefinitionError
                           ''cannot be declared overloaded as there are no ancestors defining it.''
                           scls' NoDetails)
                    else Inr ()
                  else Inr ()))"

section \<open>Create (\<^verbatim>\<open>CreateReferencedInheritingObject\<close>)\<close>

text \<open>
  \<^verbatim>\<open>_create_begin\<close>, first part: the \<^verbatim>\<open>bases\<close> attribute is rewritten on the
  command before the generic create runs.
\<close>

definition create_begin_bases ::
  "env \<Rightarrow> command \<Rightarrow> schema \<Rightarrow> command_context \<Rightarrow> error + command" where
  "create_begin_bases E self schema context =
     (case get_referrer_context E (cmd_class self) context of
        Inl e \<Rightarrow> Inl e
      | Inr None \<Rightarrow> Inr self
      | Inr (Some referrer_ctx) \<Rightarrow>
          if canonical context then Inr self
          else
            let objcls = cmd_mcls (head self);
                referrer = fr_scls referrer_ctx
            in if is_InheritingObject E (type_of E referrer) then
                 let referrer_class = cmd_mcls (head (fr_op referrer_ctx));
                     refdict = get_refdict_for_class E referrer_class objcls;
                     implicit_bases = get_implicit_ref_bases E schema referrer
                                        (attr refdict) (classname (head self))
                 in if implicit_bases \<noteq> [] then
                      (case get_attribute_value self ''bases'' of
                         None \<Rightarrow> Inr (set_attribute_value self ''bases'' (VObjList implicit_bases))
                       | Some bases \<Rightarrow>
                           if truthy (Some bases) then
                             (case objects bases of
                                Inl e \<Rightarrow> Inl e
                              | Inr bs \<Rightarrow>
                                  Inr (set_attribute_value self ''bases''
                                    (VObjList (implicit_bases
                                       @ filter (\<lambda>b. b \<notin> set implicit_bases) bs))))
                           else Inr (set_attribute_value self ''bases'' (VObjList implicit_bases)))
                    else Inr self
               else Inr self)"

text \<open>
  \<^verbatim>\<open>_create_begin\<close>: the rewritten command is handed to the generic create
  (\<^verbatim>\<open>super()._create_begin\<close>, which creates the object and binds it to the
  command), then validated.
\<close>

definition create_begin ::
  "env \<Rightarrow> command \<Rightarrow> schema \<Rightarrow> command_context \<Rightarrow> error + command \<times> schema" where
  "create_begin E self schema context =
     (case get_referrer_context E (cmd_class self) context of
        Inl e \<Rightarrow> Inl e
      | Inr referrer_ctx \<Rightarrow>
          (case create_begin_bases E self schema context of
             Inl e \<Rightarrow> Inl e
           | Inr self1 \<Rightarrow>
               (case super_create_begin E self1 schema context of
                  Inl e \<Rightarrow> Inl e
                | Inr (self2, schema1) \<Rightarrow>
                    if referrer_ctx \<noteq> None \<and> \<not> canonical context then
                      (case validate E self2 schema1 context of
                         Inl e \<Rightarrow> Inl e
                       | Inr _ \<Rightarrow> Inr (self2, schema1))
                    else Inr (self2, schema1))))"

section \<open>Delete (\<^verbatim>\<open>DeleteReferencedInheritingObject\<close>)\<close>

text \<open>
  \<^verbatim>\<open>_propagate_ref_deletion\<close>. Both commands of the first branch are built by
  \<^verbatim>\<open>child_ref.init_delta_command(schema, sd.AlterObject, ...)\<close>: the one the
  source calls \<^verbatim>\<open>rebase_cmd\<close> is requested with the kind \<^verbatim>\<open>sd.AlterObject\<close> and
  the keyword fields \<^verbatim>\<open>added_bases\<close>, \<^verbatim>\<open>removed_bases\<close>.
\<close>

definition propagate_ref_deletion_cmd ::
  "env \<Rightarrow> schema \<Rightarrow> refdict \<Rightarrow> obj \<Rightarrow> obj \<Rightarrow> command" where
  "propagate_ref_deletion_cmd E schema refdict child child_ref =
     (let name = get_name schema child_ref;
          implicit_bases = get_implicit_ref_bases E schema child (attr refdict) name
      in if get_is_owned schema child_ref \<or> implicit_bases \<noteq> [] then
           (case get_ref_implicit_base_delta E schema child_ref implicit_bases of
              (removed_bases', added_bases') \<Rightarrow>
                let rebase_cmd = init_delta_command E child_ref schema AlterObject
                      (\<lambda>h. h\<lparr>added_bases := added_bases', removed_bases := removed_bases'\<rparr>);
                    cmd = init_delta_command E child_ref schema AlterObject id
                in add cmd rebase_cmd)
         else init_delta_command E child_ref schema DeleteObject id)"

definition propagate_ref_deletion ::
  "env \<Rightarrow> command \<Rightarrow> schema \<Rightarrow> command_context \<Rightarrow> refdict \<Rightarrow> obj \<Rightarrow> obj
     \<Rightarrow> error + schema \<times> command" where
  "propagate_ref_deletion E self schema context refdict child child_ref =
     (let cmd = propagate_ref_deletion_cmd E schema refdict child child_ref
      in case cmd_apply E cmd schema context of
           Inl e \<Rightarrow> Inl e
         | Inr schema' \<Rightarrow> Inr (schema', cmd))"

text \<open>
  The objects of the delete commands of the same class on the context
  stack (\<^verbatim>\<open>isinstance(ctx.op, type(self))\<close>, \<^verbatim>\<open>ctx.op.scls\<close>). A command on the
  stack is being applied, so it is bound to its object; command classes are
  compared by kind and metaclass.
\<close>

definition deleted_bases :: "command \<Rightarrow> command_context \<Rightarrow> obj set" where
  "deleted_bases self context =
     set (List.map_filter
            (\<lambda>ctx. if cmd_class (fr_op ctx) = cmd_class self then scls (head (fr_op ctx))
                   else None)
            (stack context))"

text \<open>
  The loop of \<^verbatim>\<open>_delete_ref\<close> over the children of the referrer; the schema
  returned for one child is the schema the next child is processed in.
\<close>

fun delete_ref_children ::
  "env \<Rightarrow> refdict \<Rightarrow> sname \<Rightarrow> obj \<Rightarrow> command_context \<Rightarrow> obj list \<Rightarrow> command \<times> schema
     \<Rightarrow> error + command \<times> schema" where
  "delete_ref_children E refdict self_name referrer context [] (self, schema) =
     Inr (self, schema)"
| "delete_ref_children E refdict self_name referrer context (child # rest) (self, schema) =
     (let child_coll = get_field_value schema child (attr refdict);
          fq_refname_in_child = classname_from_name E self_name (get_name schema child);
          child_refname = get_key_for_name E (type_of E referrer) (attr refdict) schema
                            fq_refname_in_child
      in case map_of child_coll child_refname of
           None \<Rightarrow> delete_ref_children E refdict self_name referrer context rest (self, schema)
         | Some existing \<Rightarrow>
             let alter = init_delta_command E child schema AlterObject id
             in case propagate_ref_deletion E self schema (new_context E alter context child)
                       refdict child existing of
                  Inl e \<Rightarrow> Inl e
                | Inr (schema', cmd) \<Rightarrow>
                    delete_ref_children E refdict self_name referrer context rest
                      (add self (add alter cmd), schema'))"

text \<open>\<^verbatim>\<open>_delete_ref\<close>.\<close>

definition delete_ref ::
  "env \<Rightarrow> command \<Rightarrow> schema \<Rightarrow> command_context \<Rightarrow> obj \<Rightarrow> error + command \<times> schema" where
  "delete_ref E self schema context referrer =
     (case scls (head self) of
        None \<Rightarrow> Inl (AttributeError ''scls'')
      | Some scls' \<Rightarrow>
          let referrer_class = type_of E referrer;
              mcls' = type_of E scls';
              refdict = get_refdict_for_class E referrer_class mcls';
              refname = get_key_for E referrer_class (attr refdict) schema scls';
              self_name = get_name schema scls';
              schema1 = del_classref E schema referrer (attr refdict) refname
          in if is_InheritingObject E (type_of E referrer) \<and> \<not> canonical context then
               let implicit_bases =
                     (if \<not> in_deletion E context 1 \<and> \<not> disable_dep_verification context
                      then set (get_implicit_ref_bases E schema1 referrer (attr refdict) self_name)
                             - deleted_bases self context
                      else {})
               in if implicit_bases \<noteq> {} then
                    Inl (SchemaError ''cannot drop inherited'' scls'
                           (Unordered ((\<lambda>b. get_field_value_obj schema1 b (backref_attr refdict))
                                         ` implicit_bases)))
                  else delete_ref_children E refdict self_name referrer context
                         (children schema1 referrer) (self, schema1)
             else Inr (self, schema1))"

text \<open>
  \<^verbatim>\<open>DeleteReferencedObjectCommand._delete_innards\<close>: the inherited
  \<^verbatim>\<open>_delete_innards\<close> first, then \<^verbatim>\<open>_delete_ref\<close> with the object of the
  innermost referrer frame; with no referrer frame the schema is returned
  as it is. The inherited method is the argument \<open>super_delete_innards\<close>.
\<close>

type_synonym applier = "command \<Rightarrow> schema \<Rightarrow> command_context \<Rightarrow> error + schema"

definition delete_innards ::
  "env \<Rightarrow> applier \<Rightarrow> command \<Rightarrow> schema \<Rightarrow> command_context \<Rightarrow> error + command \<times> schema" where
  "delete_innards E super_delete_innards self schema context =
     (case super_delete_innards self schema context of
        Inl e \<Rightarrow> Inl e
      | Inr schema1 \<Rightarrow>
          (case get_referrer_context E (cmd_class self) context of
             Inl e \<Rightarrow> Inl e
           | Inr None \<Rightarrow> Inr (self, schema1)
           | Inr (Some referrer_ctx) \<Rightarrow>
               delete_ref E self schema1 context (fr_scls referrer_ctx)))"

text \<open>
  Modelled from the spec: \<^verbatim>\<open>Command.apply\<close> of \<^verbatim>\<open>edb/schema/delta.py\<close>, which
  is not part of the sources, as far as the commands of a delete stack need
  it (the delta root, \<^verbatim>\<open>AlterObject\<close> and \<^verbatim>\<open>DeleteObject\<close> commands bound to
  their objects). The spec: a command is "a node in a delta tree carrying
  (classname, attribute-value assignments, nested commands)"; "ordering
  within one edit is strictly the command-tree traversal order (parent before
  children)"; "propagation to descendants is executed eagerly during parent
  apply"; the context stack is "acquired for the duration of a nested apply
  and released on all exit paths"; apply maps a schema to a schema.

  So the delta root applies its nested commands in order. Any other command
  opens its frame on the context, runs the part of its class that the
  framework defines (the parameter \<open>framework\<close>, which is handed the apply it
  may run on further commands), and applies its nested commands in order,
  each in the schema the previous one returned. For a \<^verbatim>\<open>DeleteObject\<close> of a
  referenced inheriting object these two steps are the inherited
  \<^verbatim>\<open>_delete_innards\<close> of the method above, and the nested apply that
  \<^verbatim>\<open>_propagate_ref_deletion\<close> runs is this apply again. A command that is not
  bound to an object has no \<^verbatim>\<open>scls\<close> to open its frame with.

  The depth of nested applies is bounded by the recursion limit of the
  interpreter, the argument of type \<open>nat\<close>: beyond it Python raises
  \<^verbatim>\<open>RecursionError\<close>, which is a \<^verbatim>\<open>RuntimeError\<close>.
\<close>

primrec apply_ops :: "applier \<Rightarrow> command list \<Rightarrow> schema \<Rightarrow> command_context \<Rightarrow> error + schema" where
  "apply_ops ap [] schema context = Inr schema"
| "apply_ops ap (op # rest) schema context =
     (case ap op schema context of
        Inl e \<Rightarrow> Inl e
      | Inr schema' \<Rightarrow> apply_ops ap rest schema' context)"

primrec apply_cmd :: "env \<Rightarrow> (applier \<Rightarrow> applier) \<Rightarrow> nat \<Rightarrow> applier" where
  "apply_cmd E framework 0 =
     (\<lambda>cmd schema context. Inl (RuntimeError ''maximum recursion depth exceeded''))"
| "apply_cmd E framework (Suc n) =
     (\<lambda>cmd schema context.
        if kind (head cmd) = DeltaRoot then
          apply_ops (apply_cmd E framework n) (ops cmd) schema context
        else
          case scls (head cmd) of
            None \<Rightarrow> Inl (AttributeError ''scls'')
          | Some scls' \<Rightarrow>
              let context' = new_context E cmd context scls';
                  super_innards = (\<lambda>self s k.
                     case framework (apply_cmd E framework n) self s k of
                       Inl e \<Rightarrow> Inl e
                     | Inr s1 \<Rightarrow> apply_ops (apply_cmd E framework n) (ops self) s1 k)
              in if kind (head cmd) = DeleteObject
                    \<and> is_ReferencedInheritingObjectCommand E (cmd_class cmd) then
                   (case delete_innards (E\<lparr>cmd_apply := apply_cmd E framework n\<rparr>)
                           super_innards cmd schema context' of
                      Inl e \<Rightarrow> Inl e
                    | Inr (self', schema') \<Rightarrow> Inr schema')
                 else super_innards cmd schema context')"

text \<open>
  \<^verbatim>\<open>with context(sd.DeltaRootContext(schema=schema, op=delta)): delta.apply(schema, context)\<close>.
  The frame of the delta root has no object in the source; the frame of the
  model holds the object the stack was built for, which is read only by a
  command whose referrer context class is \<^verbatim>\<open>DeltaRootContext\<close>.
\<close>

definition apply_delta ::
  "env \<Rightarrow> (applier \<Rightarrow> applier) \<Rightarrow> nat \<Rightarrow> command \<Rightarrow> schema \<Rightarrow> command_context \<Rightarrow> obj
     \<Rightarrow> error + schema" where
  "apply_delta E framework limit delta schema context self =
     apply_cmd E framework limit delta schema
       (context\<lparr>stack := stack context @
          [\<lparr>fr_mro = [''DeltaRootContext''], fr_op = delta, fr_scls = self\<rparr>]\<rparr>)"

text \<open>
  \<^verbatim>\<open>ReferencedObject.delete\<close>: the context is the default
  \<^verbatim>\<open>sd.CommandContext\<close> with \<^verbatim>\<open>disable_dep_verification=True\<close>; the delete
  stack of the object, built by the framework's \<^verbatim>\<open>_get_command_stack\<close>, is
  applied under the frame of its delta root.
\<close>

definition delete_context :: "env \<Rightarrow> command_context" where
  "delete_context E = (default_context E)\<lparr>disable_dep_verification := True\<rparr>"

definition delete ::
  "env \<Rightarrow> (applier \<Rightarrow> applier) \<Rightarrow> nat \<Rightarrow> obj \<Rightarrow> schema \<Rightarrow> error + schema" where
  "delete E framework limit self schema =
     (let context = delete_context E
      in case get_command_stack E self schema context DeleteObject of
           (delta, cmd) \<Rightarrow> apply_delta E framework limit delta schema context self)"

text \<open>The error that \<^verbatim>\<open>_delete_ref\<close> raises for an inherited ref, whatever its object and details.\<close>

definition cannot_drop_inherited :: "error \<Rightarrow> bool" where
  "cannot_drop_inherited e =
     (case e of SchemaError msg ob d \<Rightarrow> msg = ''cannot drop inherited'' | _ \<Rightarrow> False)"

section \<open>Propagating a creation (\<^verbatim>\<open>CreateReferencedInheritingObject._create_ref\<close>)\<close>

text \<open>
  An AST node of a referenced object is kept by its \<^verbatim>\<open>qlast.ObjectRef\<close>: the
  name and the optional module.
\<close>

type_synonym objectref = "string \<times> string option"

definition classname_quals_from_ast :: "string list" where
  "classname_quals_from_ast = []"

text \<open>\<^verbatim>\<open>ReferencedObjectCommand._classname_from_ast\<close>, for the command class \<open>cls\<close>.\<close>

definition classname_from_ast ::
  "env \<Rightarrow> cmdtype \<times> mcls \<Rightarrow> schema \<Rightarrow> objectref \<Rightarrow> command_context \<Rightarrow> error + sname" where
  "classname_from_ast E cls schema astnode context =
     (let name = super_classname_from_ast E schema astnode context
      in case get_referrer_context E cls context of
           Inl e \<Rightarrow> Inl e
         | Inr None \<Rightarrow> Inr name
         | Inr (Some parent_ctx) \<Rightarrow>
             let referrer_name = classname (head (fr_op parent_ctx));
                 base_name = ast_to_object_shell_name E astnode schema (snd cls);
                 quals = classname_quals_from_ast;
                 pnn = get_specialized_name E base_name referrer_name quals
             in Inr (Name_new E pnn (Name_module E referrer_name)))"

text \<open>\<^verbatim>\<open>CreateReferencedObject.get_inherited_ref_name\<close> and \<^verbatim>\<open>as_inherited_ref_ast\<close>.\<close>

definition get_inherited_ref_name :: "env \<Rightarrow> schema \<Rightarrow> obj \<Rightarrow> string \<Rightarrow> objectref" where
  "get_inherited_ref_name E schema parent name =
     (let shortname = (if Name_is_qualified E name then shortname_from_fullname E name
                       else name)
      in (shortname, Some (Name_module E (get_shortname schema parent))))"

definition as_inherited_ref_ast :: "env \<Rightarrow> schema \<Rightarrow> string \<Rightarrow> obj \<Rightarrow> objectref" where
  "as_inherited_ref_ast E schema name parent = get_inherited_ref_name E schema parent name"

text \<open>
  \<^verbatim>\<open>CreateReferencedObject.as_inherited_ref_cmd\<close>: the command is named from the
  AST node and given its \<^verbatim>\<open>name\<close> attribute; the argument \<^verbatim>\<open>parents\<close> is not
  used by this implementation.
\<close>

definition as_inherited_ref_cmd ::
  "env \<Rightarrow> cmdtype \<times> mcls \<Rightarrow> schema \<Rightarrow> command_context \<Rightarrow> objectref \<Rightarrow> obj list
     \<Rightarrow> error + command" where
  "as_inherited_ref_cmd E cls schema context astnode parents =
     (case classname_from_ast E cls schema astnode context of
        Inl e \<Rightarrow> Inl e
      | Inr n \<Rightarrow> Inr (set_attribute_value (new_cmd cls n) ''name'' (VName n)))"

text \<open>The body of the loop of \<^verbatim>\<open>_propagate_ref_creation\<close> for one child that allows propagation.\<close>

definition propagate_ref_creation_child ::
  "env \<Rightarrow> command \<Rightarrow> obj \<Rightarrow> schema \<Rightarrow> command_context \<Rightarrow> obj \<Rightarrow> obj \<Rightarrow> error + command" where
  "propagate_ref_creation_child E self scls' schema context referrer child =
     (let mcls' = type_of E scls';
          referrer_cls = type_of E referrer;
          alter_cmd = (AlterObject, referrer_cls);
          ref_create_cmd = (CreateObject, mcls');
          ref_alter_cmd = (AlterObject, mcls');
          ref_rebase_cmd = (RebaseInheritingObject, mcls');
          refdict = get_refdict_for_class E referrer_cls mcls';
          parent_fq_refname = get_name schema scls';
          alter = new_cmd alter_cmd (get_name schema child);
          context' = new_context E alter context child;
          refname = get_key_for_name E (type_of E child) (attr refdict) schema parent_fq_refname;
          astnode = as_inherited_ref_ast E schema refname scls'
      in case classname_from_ast E (cmd_class self) schema astnode context' of
           Inl e \<Rightarrow> Inl e
         | Inr fq_name \<Rightarrow>
             (case as_inherited_ref_cmd E ref_create_cmd schema context' astnode [scls'] of
                Inl e \<Rightarrow> Inl e
              | Inr ref_create0 \<Rightarrow>
                  let ref_create1 = Cmd ((head ref_create0)\<lparr>if_not_exists := True\<rparr>)
                                      (ops ref_create0);
                      ref_create2 = set_attribute_value ref_create1 (backref_attr refdict)
                                      (VObj child);
                      ref_create = (if get_is_derived schema child
                                    then set_attribute_value ref_create2 ''is_derived''
                                           (VBool True)
                                    else ref_create2);
                      ref_alter = Cmd ((head (new_cmd ref_alter_cmd fq_name))
                                         \<lparr>if_exists := True\<rparr>) [];
                      ref_rebase = Cmd ((head (new_cmd ref_rebase_cmd fq_name))
                                         \<lparr>implicit := True, added_bases := [],
                                          removed_bases := []\<rparr>) [];
                      ref_alter' = add ref_alter ref_rebase
                  in Inr (add (add alter ref_alter') ref_create)))"

fun propagate_ref_creation_loop ::
  "env \<Rightarrow> obj \<Rightarrow> schema \<Rightarrow> command_context \<Rightarrow> obj \<Rightarrow> obj list \<Rightarrow> command \<Rightarrow> error + command" where
  "propagate_ref_creation_loop E scls' schema context referrer [] self = Inr self"
| "propagate_ref_creation_loop E scls' schema context referrer (child # rest) self =
     (if \<not> allow_ref_propagation E child schema context
              (get_refdict_for_class E (type_of E referrer) (type_of E scls'))
      then propagate_ref_creation_loop E scls' schema context referrer rest self
      else
        (case propagate_ref_creation_child E self scls' schema context referrer child of
           Inl e \<Rightarrow> Inl e
         | Inr alter \<Rightarrow>
             propagate_ref_creation_loop E scls' schema context referrer rest (add self alter)))"

definition propagate_ref_creation ::
  "env \<Rightarrow> command \<Rightarrow> schema \<Rightarrow> command_context \<Rightarrow> obj \<Rightarrow> error + command \<times> schema" where
  "propagate_ref_creation E self schema context referrer =
     (case scls (head self) of
        None \<Rightarrow> Inl (AttributeError ''scls'')
      | Some scls' \<Rightarrow>
          (case propagate_ref_creation_loop E scls' schema context referrer
                  (children schema referrer) self of
             Inl e \<Rightarrow> Inl e
           | Inr self' \<Rightarrow> Inr (self', schema)))"

text \<open>
  \<^verbatim>\<open>_create_ref\<close>: the ref is added to the collection of the referrer
  (\<^verbatim>\<open>CreateReferencedObject._create_ref\<close>), then the creation is propagated
  under the four guards.
\<close>

definition create_ref ::
  "env \<Rightarrow> command \<Rightarrow> schema \<Rightarrow> command_context \<Rightarrow> obj \<Rightarrow> error + command \<times> schema" where
  "create_ref E self schema context referrer =
     (case scls (head self) of
        None \<Rightarrow> Inl (AttributeError ''scls'')
      | Some scls' \<Rightarrow>
          let referrer_cls = type_of E referrer;
              mcls' = type_of E scls';
              refdict = get_refdict_for_class E referrer_cls mcls';
              schema1 = add_classref E schema referrer (attr refdict) scls'
          in if \<not> get_is_final schema1 scls'
                \<and> is_InheritingObject E (type_of E referrer)
                \<and> \<not> canonical context
                \<and> enable_recursion context
             then propagate_ref_creation E self schema1 context referrer
             else Inr (self, schema1))"

section \<open>Rename (\<^verbatim>\<open>RenameReferencedInheritingObject\<close>)\<close>

text \<open>
  \<^verbatim>\<open>_propagate_ref_op\<close>: the loop over the ordered descendants. The callback
  receives the command of the descendant, the refname and the context with
  the two frames opened around the call, and returns the command with what it
  added.
\<close>

fun propagate_ref_op_loop ::
  "env \<Rightarrow> schema \<Rightarrow> command_context \<Rightarrow> refname
     \<Rightarrow> (command \<Rightarrow> refname \<Rightarrow> command_context \<Rightarrow> command)
     \<Rightarrow> obj list \<Rightarrow> command \<Rightarrow> error + command" where
  "propagate_ref_op_loop E schema context refname cb [] self = Inr self"
| "propagate_ref_op_loop E schema context refname cb (descendant # rest) self =
     (let d_alter_cmd0 = init_delta_command E descendant schema AlterObject id;
          d_alter_cmd = Cmd ((head d_alter_cmd0)\<lparr>ref_op_propagated := True\<rparr>) (ops d_alter_cmd0)
      in case get_referrer schema descendant of
           None \<Rightarrow> Inl AssertionError
         | Some d_referrer \<Rightarrow>
             let r_alter_cmd = init_delta_command E d_referrer schema AlterObject id;
                 context1 = new_context E r_alter_cmd context d_referrer;
                 context2 = new_context E d_alter_cmd context1 descendant;
                 d_alter_cmd' = cb d_alter_cmd refname context2;
                 r_alter_cmd' = add r_alter_cmd d_alter_cmd'
             in propagate_ref_op_loop E schema context refname cb rest (add self r_alter_cmd'))"

definition propagate_ref_op ::
  "env \<Rightarrow> command \<Rightarrow> schema \<Rightarrow> command_context \<Rightarrow> obj
     \<Rightarrow> (command \<Rightarrow> refname \<Rightarrow> command_context \<Rightarrow> command)
     \<Rightarrow> error + command \<times> schema" where
  "propagate_ref_op E self schema context scls' cb =
     (if list_ex (\<lambda>ctx. is_ReferencedInheritingObjectCommand E (cmd_class (fr_op ctx))
                        \<and> ref_op_propagated (head (fr_op ctx)))
           (rev (stack context))
      then Inr (self, schema)
      else
        (case get_referrer_context_or_die E (cmd_class self) context of
           Inl e \<Rightarrow> Inl e
         | Inr referrer_ctx \<Rightarrow>
             (case scls (head self) of
                None \<Rightarrow> Inl (AttributeError ''scls'')
              | Some self_scls \<Rightarrow>
                  let referrer = fr_scls referrer_ctx;
                      referrer_class = type_of E referrer;
                      mcls' = type_of E scls';
                      refdict = get_refdict_for_class E referrer_class mcls';
                      refname = get_key_for E referrer_class (attr refdict) schema self_scls
                  in (case propagate_ref_op_loop E schema context refname cb
                             (ordered_descendants schema scls') self of
                        Inl e \<Rightarrow> Inl e
                      | Inr self' \<Rightarrow> Inr (self', schema)))))"

text \<open>
  \<^verbatim>\<open>_propagate_ref_rename\<close> and its callback \<^verbatim>\<open>_ref_rename\<close>: the rename
  command is built by the framework's \<^verbatim>\<open>_rename_cmd_from_ast\<close> from an AST
  node whose \<^verbatim>\<open>new_name\<close> is \<^verbatim>\<open>ObjectRef(name=refname)\<close>.
\<close>

definition ref_rename ::
  "env \<Rightarrow> cmdtype \<times> mcls \<Rightarrow> schema \<Rightarrow> command \<Rightarrow> refname \<Rightarrow> command_context \<Rightarrow> command" where
  "ref_rename E rename_cmdcls schema alter_cmd refname context =
     add alter_cmd (rename_cmd_from_ast E rename_cmdcls schema refname context)"

definition propagate_ref_rename ::
  "env \<Rightarrow> command \<Rightarrow> schema \<Rightarrow> command_context \<Rightarrow> obj \<Rightarrow> error + command \<times> schema" where
  "propagate_ref_rename E self schema context scls' =
     propagate_ref_op E self schema context scls'
       (ref_rename E (RenameObject, type_of E scls') schema)"

text \<open>\<^verbatim>\<open>_rename_begin\<close>.\<close>

definition rename_begin ::
  "env \<Rightarrow> command \<Rightarrow> schema \<Rightarrow> command_context \<Rightarrow> error + command \<times> schema" where
  "rename_begin E self schema context =
     (case super_rename_begin E self schema context of
        Inl e \<Rightarrow> Inl e
      | Inr schema1 \<Rightarrow>
          (case scls (head self) of
             None \<Rightarrow> Inl (AttributeError ''scls'')
           | Some scls' \<Rightarrow>
               if \<not> canonical context \<and> \<not> generic schema1 scls' then
                 let implicit_bases = get_implicit_bases schema1 scls';
                     non_renamed_bases = set implicit_bases - renamed_objs context
                 in if non_renamed_bases \<noteq> {} then
                      Inl (SchemaDefinitionError ''cannot rename inherited'' scls'
                             (Unordered non_renamed_bases))
                    else propagate_ref_rename E self schema1 context scls'
               else Inr (self, schema1)))"

section \<open>Drop owned (\<^verbatim>\<open>AlterOwned\<close>)\<close>

text \<open>
  \<^verbatim>\<open>_drop_owned_refs\<close>: the loop over the sub-refs of one RefDict; the
  nested \<^verbatim>\<open>AlterOwned\<close> is applied at once, the \<^verbatim>\<open>DeleteObject\<close> is only added.
\<close>

fun drop_owned_refs_loop ::
  "env \<Rightarrow> command_context \<Rightarrow> obj list \<Rightarrow> command \<times> schema \<Rightarrow> error + command \<times> schema" where
  "drop_owned_refs_loop E context [] (self, schema) = Inr (self, schema)"
| "drop_owned_refs_loop E context (ref # rest) (self, schema) =
     (let inherited = get_implicit_bases schema ref
      in if inherited \<noteq> [] \<and> get_is_owned schema ref then
           let drop_owned = set_attribute_value
                              (init_delta_command E ref schema AlterOwned id)
                              ''is_owned'' (VBool False);
               alter = add (init_delta_command E ref schema AlterObject id) drop_owned
           in (case cmd_apply E alter schema context of
                 Inl e \<Rightarrow> Inl e
               | Inr schema' \<Rightarrow>
                   drop_owned_refs_loop E context rest (add self alter, schema'))
         else
           let drop_ref = init_delta_command E ref schema DeleteObject id
           in drop_owned_refs_loop E context rest (add self drop_ref, schema))"

definition drop_owned_refs ::
  "env \<Rightarrow> command \<Rightarrow> schema \<Rightarrow> command_context \<Rightarrow> refdict \<Rightarrow> error + command \<times> schema" where
  "drop_owned_refs E self schema context refdict =
     (case scls (head self) of
        None \<Rightarrow> Inl (AttributeError ''scls'')
      | Some scls' \<Rightarrow>
          let refs = get_field_value schema scls' (attr refdict)
          in drop_owned_refs_loop E context (map snd refs) (self, schema))"

text \<open>The loop of \<^verbatim>\<open>AlterOwned._alter_begin\<close> over the RefDicts of the class.\<close>

fun drop_owned_refdicts ::
  "env \<Rightarrow> command_context \<Rightarrow> refdict list \<Rightarrow> command \<times> schema \<Rightarrow> error + command \<times> schema" where
  "drop_owned_refdicts E context [] (self, schema) = Inr (self, schema)"
| "drop_owned_refdicts E context (refdict # rest) (self, schema) =
     (case drop_owned_refs E self schema context refdict of
        Inl e \<Rightarrow> Inl e
      | Inr r \<Rightarrow> drop_owned_refdicts E context rest r)"

text \<open>\<^verbatim>\<open>AlterOwned._alter_begin\<close>.\<close>

definition alter_owned_begin ::
  "env \<Rightarrow> command \<Rightarrow> schema \<Rightarrow> command_context \<Rightarrow> error + command \<times> schema" where
  "alter_owned_begin E self schema context =
     (let orig_schema = schema
      in case super_alter_begin E self schema context of
           Inl e \<Rightarrow> Inl e
         | Inr schema1 \<Rightarrow>
             (case scls (head self) of
                None \<Rightarrow> Inl (AttributeError ''scls'')
              | Some scls' \<Rightarrow>
                  let orig_owned = get_is_owned orig_schema scls';
                      owned = get_is_owned schema1 scls'
                  in if orig_owned \<noteq> owned \<and> \<not> owned \<and> \<not> canonical context then
                       if get_implicit_bases schema1 scls' = [] then
                         Inl (InvalidDefinitionError ''cannot drop owned'' scls')
                       else
                         (case inherit_fields E self schema1 context
                                 (get_bases schema1 scls') True of
                            Inl e \<Rightarrow> Inl e
                          | Inr schema2 \<Rightarrow>
                              drop_owned_refdicts E context
                                (get_refdicts E (type_of E scls')) (self, schema2))
                     else Inr (self, schema1)))"

text \<open>
  The two shapes of a command emitted for a sub-ref by \<^verbatim>\<open>_drop_owned_refs\<close>, as
  C6 words them: an \<^verbatim>\<open>AlterObject\<close> of the sub-ref whose only nested command is
  an \<^verbatim>\<open>AlterOwned\<close> of the sub-ref setting \<^verbatim>\<open>is_owned\<close> to false, and a
  \<^verbatim>\<open>DeleteObject\<close> of the sub-ref.
\<close>

definition nested_alter_owned_false :: "obj \<Rightarrow> command \<Rightarrow> bool" where
  "nested_alter_owned_false r c \<longleftrightarrow>
     kind (head c) = AlterObject \<and> scls (head c) = Some r
     \<and> (\<exists>n. ops c = [n] \<and> kind (head n) = AlterOwned \<and> scls (head n) = Some r
            \<and> get_attribute_value n ''is_owned'' = Some (VBool False) \<and> ops n = [])"

definition delete_object_of :: "obj \<Rightarrow> command \<Rightarrow> bool" where
  "delete_object_of r c \<longleftrightarrow>
     kind (head c) = DeleteObject \<and> scls (head c) = Some r \<and> ops c = []"

section \<open>A small schema for the worked examples\<close>

text \<open>
  Object types \<open>A\<close> (1) and \<open>B\<close> (2) with \<open>B\<close> extending \<open>A\<close>; the default
  base \<open>property\<close> (10), the generic property \<open>p\<close> (20) and its
  specialisations \<open>p@A\<close> (11) and \<open>p@B\<close> (12). The property \<open>p@B\<close> has two
  constraints: \<open>c@p@B\<close> (31), owned and inherited from \<open>c@p@A\<close> (30), and
  \<open>d@p@B\<close> (32), a specialisation of the generic constraint \<open>d\<close> (40) only.
\<close>

definition S0 :: schema where
  "S0 = \<lparr>
     get_name = (\<lambda>ob. if ob = 1 then ''A'' else if ob = 2 then ''B''
                  else if ob = 10 then ''property'' else if ob = 20 then ''p''
                  else if ob = 11 then ''p@A'' else if ob = 12 then ''p@B''
                  else if ob = 30 then ''c@p@A'' else if ob = 31 then ''c@p@B''
                  else if ob = 32 then ''d@p@B'' else if ob = 40 then ''d'' else ''?''),
     get_shortname = (\<lambda>ob. if ob = 1 then ''A'' else if ob = 2 then ''B''
                  else if ob = 10 then ''property'' else ''p''),
     get_bases = (\<lambda>ob. if ob = 2 then [1] else if ob = 11 then [20, 10]
                  else if ob = 12 then [11, 20, 10] else if ob = 31 then [30]
                  else if ob = 32 then [40] else []),
     get_is_final = (\<lambda>ob. False),
     get_is_owned = (\<lambda>ob. ob = 11 \<or> ob = 12 \<or> ob = 31 \<or> ob = 32),
     get_is_derived = (\<lambda>ob. False),
     generic = (\<lambda>ob. ob = 10 \<or> ob = 20 \<or> ob = 40),
     get_referrer = (\<lambda>ob. if ob = 11 then Some 1 else if ob = 12 then Some 2
                  else if ob = 30 then Some 11 else if ob = 31 \<or> ob = 32 then Some 12
                  else None),
     get_field_value = (\<lambda>ob a. if a = ''properties'' \<and> ob = 1 then [(''p'', 11)]
                  else if a = ''properties'' \<and> ob = 2 then [(''p'', 12)]
                  else if a = ''constraints'' \<and> ob = 12 then [(''c'', 31), (''d'', 32)]
                  else []),
     get_field_value_obj = (\<lambda>ob a. if ob = 11 then 1 else if ob = 12 then 2 else 0),
     children = (\<lambda>ob. if ob = 1 then [2] else []),
     ordered_descendants = (\<lambda>ob. if ob = 11 then [12] else []) \<rparr>"

definition demo_shortname :: "string \<Rightarrow> string" where
  "demo_shortname n = takeWhile (\<lambda>c. c \<noteq> CHR ''@'') n"

definition E0 :: env where
  "E0 = \<lparr>
     type_of = (\<lambda>ob. if ob < 10 then ''ObjectType'' else if ob < 30 then ''Property''
                 else ''Constraint''),
     is_InheritingObject = (\<lambda>m. True),
     is_ReferencedInheritingObjectCommand = (\<lambda>cls. snd cls = ''Property''),
     referrer_context_class =
       (\<lambda>cls. if snd cls = ''Property'' then Some ''ObjectTypeCommandContext'' else None),
     context_class_mro = (\<lambda>cls. [snd cls @ ''CommandContext'']),
     get_refdict_for_class = (\<lambda>rc oc. \<lparr>attr = ''properties'', backref_attr = ''source'',
                                      requires_explicit_overloaded = True\<rparr>),
     get_refdicts = (\<lambda>m. if m = ''Property''
                 then [\<lparr>attr = ''constraints'', backref_attr = ''subject'',
                        requires_explicit_overloaded = True\<rparr>]
                 else []),
     get_default_base_name = (\<lambda>m. if m = ''Property'' then Some ''property'' else None),
     get_key_for_name = (\<lambda>m a s n. demo_shortname n),
     get_key_for = (\<lambda>m a s ob. demo_shortname (get_name s ob)),
     shortname_from_fullname = demo_shortname,
     get_specialized_name = (\<lambda>b r quals. b @ ''@'' @ r),
     Name_new = (\<lambda>n m. n),
     Name_module = (\<lambda>n. ''default''),
     Name_is_qualified = (\<lambda>n. False),
     ast_to_object_shell_name = (\<lambda>r s m. fst r),
     super_classname_from_ast = (\<lambda>s r c. fst r),
     add_classref = (\<lambda>s r a ob. s),
     del_classref = (\<lambda>s r a k. s\<lparr>get_field_value :=
        (\<lambda>ob a'. if ob = r \<and> a' = a then filter (\<lambda>kv. fst kv \<noteq> k) (get_field_value s ob a')
                  else get_field_value s ob a')\<rparr>),
     allow_ref_propagation = (\<lambda>ob s c rd. True),
     in_deletion = (\<lambda>c n. False),
     cmd_apply = (\<lambda>c s ctx. Inr s),
     inherit_fields = (\<lambda>c s ctx bs il. Inr s),
     super_create_begin = (\<lambda>c s ctx. Inr (c, s)),
     super_alter_begin = (\<lambda>c s ctx.
        case (scls (head c), map_of (attrs (head c)) ''is_owned'') of
          (Some ob, Some (VBool b)) \<Rightarrow>
            Inr (s\<lparr>get_is_owned := (\<lambda>ob'. if ob' = ob then b else get_is_owned s ob')\<rparr>)
        | _ \<Rightarrow> Inr s),
     super_rename_begin = (\<lambda>c s ctx. Inr s),
     rename_cmd_from_ast = (\<lambda>cls s n ctx.
        Cmd \<lparr>kind = fst cls, cmd_mcls = snd cls, classname = [], scls = None,
          attrs = [], if_exists = False, if_not_exists = False, implicit = False,
          ref_op_propagated = False, added_bases = [], removed_bases = [],
          new_name = Some n\<rparr> []),
     get_command_stack = (\<lambda>ob s ctx k. (Cmd \<lparr>kind = DeltaRoot, cmd_mcls = [], classname = [], scls = None,
          attrs = [], if_exists = False, if_not_exists = False, implicit = False,
          ref_op_propagated = False, added_bases = [], removed_bases = [],
          new_name = None\<rparr> [], Cmd \<lparr>kind = k, cmd_mcls = [], classname = [], scls = Some ob,
          attrs = [], if_exists = False, if_not_exists = False, implicit = False,
          ref_op_propagated = False, added_bases = [], removed_bases = [],
          new_name = None\<rparr> [])),
     default_context = \<lparr>stack = [], canonical = False, declarative = False,
        enable_recursion = True, disable_dep_verification = False, renamed_objs = {}\<rparr> \<rparr>"

text \<open>A context with no frame, and one inside \<^verbatim>\<open>ALTER TYPE B\<close>.\<close>

definition ctx0 :: command_context where
  "ctx0 = \<lparr>stack = [], canonical = False, declarative = True, enable_recursion = True,
           disable_dep_verification = False, renamed_objs = {}\<rparr>"

definition ctxB :: command_context where
  "ctxB = new_context E0 (init_delta_command E0 2 S0 AlterObject id) ctx0 2"

definition ctxAB :: command_context where
  "ctxAB = new_context E0 (init_delta_command E0 2 S0 AlterObject id)
             (new_context E0 (init_delta_command E0 1 S0 AlterObject id) ctx0 1) 2"

text \<open>\<^verbatim>\<open>CREATE PROPERTY p\<close> inside \<open>B\<close>, with the generic \<open>p\<close> as its explicit base.\<close>

definition create_p_B :: command where
  "create_p_B = set_attribute_value (new_cmd (CreateObject, ''Property'') ''p@B'')
                  ''bases'' (VObjList [20])"

text \<open>The same command once the generic create has bound it to \<open>p@B\<close> (12).\<close>

definition create_p_B_bound :: command where
  "create_p_B_bound = Cmd ((head create_p_B)\<lparr>scls := Some 12\<rparr>) []"

text \<open>\<^verbatim>\<open>DROP PROPERTY p\<close> on \<open>A\<close>, and on \<open>B\<close>: delete commands bound to their objects.\<close>

definition delete_p_A :: command where
  "delete_p_A = init_delta_command E0 11 S0 DeleteObject id"

definition delete_p_B :: command where
  "delete_p_B = init_delta_command E0 12 S0 DeleteObject id"

text \<open>The context of \<^verbatim>\<open>ALTER TYPE A\<close>, imperative.\<close>

definition ctxA :: command_context where
  "ctxA = new_context E0 (init_delta_command E0 1 S0 AlterObject id) ctx0 1"

text \<open>
  \<^verbatim>\<open>DROP PROPERTY p\<close> on \<open>B\<close> while the delete command of \<open>p@A\<close> is on the
  stack, and the schema once \<open>p\<close> has left the collection of \<open>A\<close>.
\<close>

definition ctxDel :: command_context where
  "ctxDel = new_context E0 (init_delta_command E0 2 S0 AlterObject id)
              (new_context E0 delete_p_A ctxA 11) 2"

definition S1 :: schema where
  "S1 = del_classref E0 S0 1 ''properties'' ''p''"

definition rd0 :: refdict where
  "rd0 = \<lparr>attr = ''properties'', backref_attr = ''source'',
           requires_explicit_overloaded = True\<rparr>"

text \<open>
  The command stack of a ref: the delta root, the \<^verbatim>\<open>AlterObject\<close> of the
  referrer and, inside it, the command of the ref. \<open>E1\<close> is \<open>E0\<close> with this
  stack; \<open>framework0\<close> is a framework part that changes nothing and never fails.
\<close>

definition demo_command_stack ::
  "obj \<Rightarrow> schema \<Rightarrow> command_context \<Rightarrow> cmdtype \<Rightarrow> command \<times> command" where
  "demo_command_stack ob s ctx k =
     (let cmd = init_delta_command E0 ob s k id
      in (case get_referrer s ob of
            None \<Rightarrow> add (new_cmd (DeltaRoot, []) []) cmd
          | Some r \<Rightarrow> add (new_cmd (DeltaRoot, []) [])
                        (add (init_delta_command E0 r s AlterObject id) cmd),
          cmd))"

definition E1 :: env where
  "E1 = E0\<lparr>get_command_stack := demo_command_stack\<rparr>"

definition framework0 :: "applier \<Rightarrow> applier" where
  "framework0 ap c s k = Inr s"

text \<open>
  \<^verbatim>\<open>CREATE PROPERTY p\<close> on \<open>A\<close>, bound to \<open>p@A\<close>; \<^verbatim>\<open>RENAME\<close> of \<open>p@A\<close>; the
  context of a propagated alter of \<open>p@A\<close>; \<^verbatim>\<open>DROP OWNED\<close> on \<open>p@B\<close>.
\<close>

definition create_p_A_bound :: command where
  "create_p_A_bound = init_delta_command E0 11 S0 CreateObject id"

definition rename_p_A :: command where
  "rename_p_A = init_delta_command E0 11 S0 RenameObject id"

definition ctxProp :: command_context where
  "ctxProp = new_context E0
               (init_delta_command E0 11 S0 AlterObject (\<lambda>h. h\<lparr>ref_op_propagated := True\<rparr>))
               ctxA 11"

definition drop_owned_p_B :: command where
  "drop_owned_p_B = set_attribute_value (init_delta_command E0 12 S0 AlterOwned id)
                      ''is_owned'' (VBool False)"

text \<open>The schema in which \<open>p@B\<close> is no longer owned.\<close>

definition S2 :: schema where
  "S2 = S0\<lparr>get_is_owned := (\<lambda>ob'. if ob' = 12 then False else get_is_owned S0 ob')\<rparr>"

section \<open>Properties\<close>

subsection \<open>Helper facts\<close>

lemma find_app:
  "find P (xs @ ys) = (case find P xs of None \<Rightarrow> find P ys | Some x \<Rightarrow> Some x)"
  by (induction xs) auto

lemma find_rev_last:
  assumes "xs = pre @ f # post" "P f" "\<forall>g\<in>set post. \<not> P g"
  shows "find P (rev xs) = Some f"
  using assms by (simp add: find_app find_None_iff[THEN iffD2] split: option.splits)

lemma get_set_attribute_value:
  "get_attribute_value (set_attribute_value self k v) k = Some v"
  by (simp add: get_attribute_value_def set_attribute_value_def update_Some_unfold)

lemma get_set_attribute_value_other:
  "k' \<noteq> k \<Longrightarrow>
   get_attribute_value (set_attribute_value self k v) k' = get_attribute_value self k'"
  by (simp add: get_attribute_value_def set_attribute_value_def update_conv')

lemma ancestry_total:
  "\<forall>b\<in>set bs. get_referrer schema b \<noteq> None \<Longrightarrow>
   ancestry schema bs = Inr (map (\<lambda>b. the (get_referrer schema b)) bs)"
  by (induction bs) auto

lemma ctx0_stack: "stack ctx0 = []"
  by (simp add: ctx0_def)

lemma ctxAB_stack:
  "stack ctxAB =
     [\<lparr>fr_mro = [''ObjectTypeCommandContext''],
        fr_op = init_delta_command E0 1 S0 AlterObject id, fr_scls = 1\<rparr>]
     @ \<lparr>fr_mro = [''ObjectTypeCommandContext''],
         fr_op = init_delta_command E0 2 S0 AlterObject id, fr_scls = 2\<rparr> # []"
  by (simp add: ctxAB_def new_context_def ctx0_def cmd_class_def init_delta_command_def
      new_cmd_def E0_def)

lemma E0_referrer_context_class:
  "referrer_context_class E0 (k, ''Property'') = Some ''ObjectTypeCommandContext''"
  by (simp add: E0_def)

subsection \<open>C8: referrer context lookup\<close>

text \<open>
  Claim C8, as the code has it. Let the command class declare the
  referrer context class \<open>c\<close>. If no frame of the context is an instance of
  \<open>c\<close>, \<^verbatim>\<open>get_referrer_context\<close> returns \<^verbatim>\<open>None\<close> and
  \<^verbatim>\<open>get_referrer_context_or_die\<close> raises \<^verbatim>\<open>RuntimeError('no referrer context ...')\<close>
  (Python's builtin, not an \<^verbatim>\<open>InvariantViolation\<close>). If the stack is
  \<open>pre @ f # post\<close> with \<open>f\<close> matching and no frame of \<open>post\<close> matching, so
  that \<open>f\<close> is the innermost matching frame, both functions return \<open>f\<close>.
\<close>

theorem C8_referrer_context_lookup:
  assumes decl: "referrer_context_class E cls = Some c"
  shows "((\<forall>f\<in>set (stack context). c \<notin> set (fr_mro f)) \<longrightarrow>
            get_referrer_context E cls context = Inr None
          \<and> get_referrer_context_or_die E cls context
              = Inl (RuntimeError ''no referrer context''))
       \<and> (\<forall>pre f post. stack context = pre @ f # post \<and> c \<in> set (fr_mro f)
             \<and> (\<forall>g\<in>set post. c \<notin> set (fr_mro g)) \<longrightarrow>
            get_referrer_context E cls context = Inr (Some f)
          \<and> get_referrer_context_or_die E cls context = Inr f)"
proof (intro conjI impI allI)
  assume "\<forall>f\<in>set (stack context). c \<notin> set (fr_mro f)"
  then have n: "context_get context c = None"
    by (simp add: context_get_def find_None_iff)
  show "get_referrer_context E cls context = Inr None"
    by (simp add: get_referrer_context_def get_referrer_context_class_def decl n)
  then show "get_referrer_context_or_die E cls context
               = Inl (RuntimeError ''no referrer context'')"
    by (simp add: get_referrer_context_or_die_def)
next
  fix pre f post
  assume a: "stack context = pre @ f # post \<and> c \<in> set (fr_mro f)
             \<and> (\<forall>g\<in>set post. c \<notin> set (fr_mro g))"
  then have s: "context_get context c = Some f"
    unfolding context_get_def by (intro find_rev_last[of _ pre f post]) auto
  show g: "get_referrer_context E cls context = Inr (Some f)"
    by (simp add: get_referrer_context_def get_referrer_context_class_def decl s)
  show "get_referrer_context_or_die E cls context = Inr f"
    by (simp add: get_referrer_context_or_die_def g)
qed

text \<open>
  Worked example: with no frame the lookup fails with \<^verbatim>\<open>RuntimeError\<close>; inside
  \<^verbatim>\<open>ALTER TYPE A\<close> \<open>>\<close> \<^verbatim>\<open>ALTER TYPE B\<close> the frame of \<open>B\<close> is found.
\<close>

theorem C8_referrer_context_lookup_witness:
  "get_referrer_context E0 (CreateObject, ''Property'') ctx0 = Inr None
   \<and> get_referrer_context_or_die E0 (CreateObject, ''Property'') ctx0
       = Inl (RuntimeError ''no referrer context'')
   \<and> get_referrer_context_or_die E0 (CreateObject, ''Property'') ctxAB
       = Inr \<lparr>fr_mro = [''ObjectTypeCommandContext''],
              fr_op = init_delta_command E0 2 S0 AlterObject id, fr_scls = 2\<rparr>"
proof -
  have none: "\<forall>f\<in>set (stack ctx0). ''ObjectTypeCommandContext'' \<notin> set (fr_mro f)"
    by (simp add: ctx0_stack)
  have t0: "get_referrer_context E0 (CreateObject, ''Property'') ctx0 = Inr None
          \<and> get_referrer_context_or_die E0 (CreateObject, ''Property'') ctx0
              = Inl (RuntimeError ''no referrer context'')"
    using C8_referrer_context_lookup [OF E0_referrer_context_class, of ctx0 CreateObject] none
    by blast
  have t1: "get_referrer_context_or_die E0 (CreateObject, ''Property'') ctxAB
       = Inr \<lparr>fr_mro = [''ObjectTypeCommandContext''],
              fr_op = init_delta_command E0 2 S0 AlterObject id, fr_scls = 2\<rparr>"
    using C8_referrer_context_lookup [OF E0_referrer_context_class, of ctxAB CreateObject]
      ctxAB_stack
    by (metis empty_iff empty_set frame.select_convs(1) list.set_intros(1))
  from t0 t1 show ?thesis by simp
qed

text \<open>
  The claim as stated fails: in a context without frames the raised error is
  a \<^verbatim>\<open>RuntimeError\<close>, whatever message an \<^verbatim>\<open>InvariantViolation\<close> would carry.
\<close>

theorem C8_counterexample:
  "referrer_context_class E0 (CreateObject, ''Property'') = Some ''ObjectTypeCommandContext''
   \<and> stack ctx0 = []
   \<and> get_referrer_context_or_die E0 (CreateObject, ''Property'') ctx0
       = Inl (RuntimeError ''no referrer context'')
   \<and> (\<forall>m. get_referrer_context_or_die E0 (CreateObject, ''Property'') ctx0
            \<noteq> Inl (InvariantViolation m))"
  by (simp add: get_referrer_context_or_die_def get_referrer_context_def
      get_referrer_context_class_def context_get_def E0_referrer_context_class ctx0_stack)

subsection \<open>C1: the bases of a created ref\<close>

text \<open>
  Claim C1. A create command runs inside a referrer context (the frame
  \<open>referrer_ctx\<close> is found), \<open>context.canonical\<close> is false and the referrer is
  an inheriting object. Let \<open>ibs\<close> be the implicit bases computed for
  (referrer, \<open>refdict.attr\<close>, \<open>classname\<close>) and \<open>old\<close> the object list previously
  set as \<^verbatim>\<open>bases\<close> (empty when the attribute is unset). Then \<^verbatim>\<open>_create_begin\<close>
  rewrites the command without raising: if \<open>ibs\<close> is non-empty, the \<^verbatim>\<open>bases\<close>
  attribute is \<open>ibs\<close> followed by the elements of \<open>old\<close> that are not in \<open>ibs\<close>
  and every other attribute is as before; if \<open>ibs\<close> is empty the command is
  unchanged. It is this command that the generic create and the validation
  then receive. The implicit bases are found by one lookup per base of the
  referrer, in the order of the bases: the ref stored in the base's
  collection under the key of the name mangled for that base, when it exists
  and is not final.
\<close>

theorem C1_create_begin_bases:
  assumes ctx: "get_referrer_context E (cmd_class self) context = Inr (Some referrer_ctx)"
    and nc: "\<not> canonical context"
    and inh: "is_InheritingObject E (type_of E (fr_scls referrer_ctx))"
    and imp: "ibs = get_implicit_ref_bases E schema (fr_scls referrer_ctx)
                (attr (get_refdict_for_class E (cmd_mcls (head (fr_op referrer_ctx)))
                   (cmd_mcls (head self)))) (classname (head self))"
    and prev: "get_attribute_value self ''bases'' = None \<and> old = []
               \<or> get_attribute_value self ''bases'' = Some (VObjList old)"
  shows "(\<exists>self'. create_begin_bases E self schema context = Inr self'
      \<and> (ibs \<noteq> [] \<longrightarrow>
           get_attribute_value self' ''bases''
             = Some (VObjList (ibs @ filter (\<lambda>b. b \<notin> set ibs) old))
         \<and> (\<forall>k. k \<noteq> ''bases'' \<longrightarrow> get_attribute_value self' k = get_attribute_value self k))
      \<and> (ibs = [] \<longrightarrow> self' = self)
      \<and> create_begin E self schema context =
          (case super_create_begin E self' schema context of
             Inl e \<Rightarrow> Inl e
           | Inr (self2, schema1) \<Rightarrow>
               (case validate E self2 schema1 context of
                  Inl e \<Rightarrow> Inl e
                | Inr _ \<Rightarrow> Inr (self2, schema1))))
   \<and> ibs = List.map_filter
             (implicit_ref_base E schema (fr_scls referrer_ctx)
                (attr (get_refdict_for_class E (cmd_mcls (head (fr_op referrer_ctx)))
                   (cmd_mcls (head self)))) (classname (head self)))
             (get_bases schema (fr_scls referrer_ctx))
   \<and> (\<forall>referrer a n ref_base p.
         implicit_ref_base E schema referrer a n ref_base = Some p \<longleftrightarrow>
           map_of (get_field_value schema ref_base a)
             (get_key_for_name E (type_of E referrer) a schema
                (classname_from_name E n (get_name schema ref_base))) = Some p
           \<and> \<not> get_is_final schema p)"
proof -
  have main: "\<exists>self'. create_begin_bases E self schema context = Inr self'
      \<and> (ibs \<noteq> [] \<longrightarrow>
           get_attribute_value self' ''bases''
             = Some (VObjList (ibs @ filter (\<lambda>b. b \<notin> set ibs) old))
         \<and> (\<forall>k. k \<noteq> ''bases'' \<longrightarrow> get_attribute_value self' k = get_attribute_value self k))
      \<and> (ibs = [] \<longrightarrow> self' = self)
      \<and> create_begin E self schema context =
          (case super_create_begin E self' schema context of
             Inl e \<Rightarrow> Inl e
           | Inr (self2, schema1) \<Rightarrow>
               (case validate E self2 schema1 context of
                  Inl e \<Rightarrow> Inl e
                | Inr _ \<Rightarrow> Inr (self2, schema1)))"
  proof (cases "ibs = []")
    case True
    then have "create_begin_bases E self schema context = Inr self"
      using ctx nc inh imp by (simp add: create_begin_bases_def Let_def)
    then show ?thesis using True ctx nc
      by (simp add: create_begin_def split: sum.splits prod.splits)
  next
    case False
    define new where "new = ibs @ filter (\<lambda>b. b \<notin> set ibs) old"
    have "create_begin_bases E self schema context
            = Inr (set_attribute_value self ''bases'' (VObjList new))"
      using prev
    proof
      assume "get_attribute_value self ''bases'' = None \<and> old = []"
      then show ?thesis using False ctx nc inh imp
        by (simp add: create_begin_bases_def Let_def new_def)
    next
      assume p: "get_attribute_value self ''bases'' = Some (VObjList old)"
      show ?thesis
      proof (cases "old = []")
        case True
        then show ?thesis using p False ctx nc inh imp
          by (simp add: create_begin_bases_def Let_def new_def)
      next
        case o: False
        then show ?thesis using p False ctx nc inh imp
          by (simp add: create_begin_bases_def Let_def new_def)
      qed
    qed
    then show ?thesis using False ctx nc
      by (simp add: create_begin_def new_def get_set_attribute_value
          get_set_attribute_value_other split: sum.splits prod.splits)
  qed
  have order: "ibs = List.map_filter
             (implicit_ref_base E schema (fr_scls referrer_ctx)
                (attr (get_refdict_for_class E (cmd_mcls (head (fr_op referrer_ctx)))
                   (cmd_mcls (head self)))) (classname (head self)))
             (get_bases schema (fr_scls referrer_ctx))"
    by (simp add: imp get_implicit_ref_bases_def)
  have look: "implicit_ref_base E schema referrer a n ref_base = Some p \<longleftrightarrow>
           map_of (get_field_value schema ref_base a)
             (get_key_for_name E (type_of E referrer) a schema
                (classname_from_name E n (get_name schema ref_base))) = Some p
           \<and> \<not> get_is_final schema p" for referrer a n ref_base p
    by (auto simp add: implicit_ref_base_def Let_def split: option.splits)
  from main order look show ?thesis
    by blast
qed

text \<open>
  Worked example: \<^verbatim>\<open>CREATE PROPERTY p\<close> on \<open>B\<close> with the explicit base \<open>p\<close> (20);
  \<open>B\<close> extends \<open>A\<close>, which has \<open>p@A\<close> (11). The bases become \<open>[p@A, p]\<close>.
\<close>

theorem C1_create_begin_bases_witness:
  "\<exists>self'. create_begin_bases E0 create_p_B S0 ctxB = Inr self'
     \<and> get_attribute_value self' ''bases'' = Some (VObjList [11, 20])"
proof -
  have ctx: "get_referrer_context E0 (cmd_class create_p_B) ctxB
     = Inr (Some \<lparr>fr_mro = [''ObjectTypeCommandContext''],
                   fr_op = init_delta_command E0 2 S0 AlterObject id, fr_scls = 2\<rparr>)"
    by code_simp
  have nc: "\<not> canonical ctxB"
    by code_simp
  have inh: "is_InheritingObject E0 (type_of E0 (fr_scls
                \<lparr>fr_mro = [''ObjectTypeCommandContext''],
                  fr_op = init_delta_command E0 2 S0 AlterObject id, fr_scls = 2\<rparr>))"
    by code_simp
  have imp: "[11] = get_implicit_ref_bases E0 S0 (fr_scls
                \<lparr>fr_mro = [''ObjectTypeCommandContext''],
                  fr_op = init_delta_command E0 2 S0 AlterObject id, fr_scls = 2\<rparr>)
                (attr (get_refdict_for_class E0 (cmd_mcls (head (fr_op
                   \<lparr>fr_mro = [''ObjectTypeCommandContext''],
                     fr_op = init_delta_command E0 2 S0 AlterObject id, fr_scls = 2\<rparr>)))
                   (cmd_mcls (head create_p_B)))) (classname (head create_p_B))"
    by code_simp
  have prev: "get_attribute_value create_p_B ''bases'' = None \<and> [20] = []
               \<or> get_attribute_value create_p_B ''bases'' = Some (VObjList [20])"
    by code_simp
  from C1_create_begin_bases [OF ctx nc inh imp prev] show ?thesis
    by auto
qed

subsection \<open>C7: the overload discipline\<close>

text \<open>
  Claim C7. Validation runs for a command bound to the object \<open>ob\<close>, inside
  the referrer context that determines the RefDict \<open>rd\<close>, with
  \<open>context.declarative\<close> true and \<open>ob\<close> owned; every non-generic base of \<open>ob\<close>
  has a referrer (the source asserts it while it builds the message). Then:
  with a non-generic base, \<open>requires_explicit_overloaded\<close> and
  \<open>declared_overloaded\<close> not set, validation fails with the
  \<^verbatim>\<open>SchemaDefinitionError\<close> "must be declared using the overloaded keyword"
  listing the referrers of the non-generic bases; with no non-generic base
  and \<open>declared_overloaded\<close> set it fails with the \<^verbatim>\<open>SchemaDefinitionError\<close>
  "cannot be declared overloaded as there are no ancestors defining it.";
  in every other combination it raises nothing.
\<close>

theorem C7_validate:
  assumes bound: "scls (head self) = Some ob"
    and rctx: "get_referrer_context_or_die E (cmd_class self) context = Inr referrer_ctx"
    and decl: "declarative context"
    and owned: "get_is_owned schema ob"
    and refd: "\<forall>b\<in>set (get_implicit_bases schema ob). get_referrer schema b \<noteq> None"
    and rd: "rd = get_refdict_for_class E (cmd_mcls (head (fr_op referrer_ctx)))
                    (cmd_mcls (head self))"
    and dov: "dov = truthy (get_attribute_value self ''declared_overloaded'')"
  shows "(get_implicit_bases schema ob \<noteq> [] \<and> requires_explicit_overloaded rd \<and> \<not> dov \<longrightarrow>
            validate E self schema context =
              Inl (SchemaDefinitionError ''must be declared using the overloaded keyword'' ob
                     (InOrder (map (\<lambda>b. the (get_referrer schema b))
                                 (get_implicit_bases schema ob)))))
       \<and> (get_implicit_bases schema ob = [] \<and> dov \<longrightarrow>
            validate E self schema context =
              Inl (SchemaDefinitionError
                     ''cannot be declared overloaded as there are no ancestors defining it.''
                     ob NoDetails))
       \<and> (\<not> (get_implicit_bases schema ob \<noteq> [] \<and> requires_explicit_overloaded rd \<and> \<not> dov)
          \<and> \<not> (get_implicit_bases schema ob = [] \<and> dov) \<longrightarrow>
            validate E self schema context = Inr ())"
  using bound rctx decl owned rd dov ancestry_total[OF refd]
  by (auto simp add: validate_def get_implicit_bases_def Let_def)

text \<open>
  Worked example: the owned \<open>p@B\<close> has the non-generic base \<open>p@A\<close>, the
  RefDict requires \<open>overloaded\<close>, and the command does not declare it: the
  error names the ancestor \<open>A\<close> (1).
\<close>

theorem C7_validate_witness:
  "validate E0 create_p_B_bound S0 ctxB =
     Inl (SchemaDefinitionError ''must be declared using the overloaded keyword'' 12
            (InOrder [1]))"
proof -
  have bound: "scls (head create_p_B_bound) = Some 12"
    by code_simp
  have rctx: "get_referrer_context_or_die E0 (cmd_class create_p_B_bound) ctxB
     = Inr \<lparr>fr_mro = [''ObjectTypeCommandContext''],
             fr_op = init_delta_command E0 2 S0 AlterObject id, fr_scls = 2\<rparr>"
    by code_simp
  have decl: "declarative ctxB"
    by code_simp
  have owned: "get_is_owned S0 12"
    by code_simp
  have ib: "get_implicit_bases S0 12 = [11]"
    by code_simp
  have refd: "\<forall>b\<in>set (get_implicit_bases S0 12). get_referrer S0 b \<noteq> None"
    unfolding ib by code_simp
  have req: "requires_explicit_overloaded (get_refdict_for_class E0
          (cmd_mcls (head (fr_op \<lparr>fr_mro = [''ObjectTypeCommandContext''],
             fr_op = init_delta_command E0 2 S0 AlterObject id, fr_scls = 2\<rparr>)))
          (cmd_mcls (head create_p_B_bound)))"
    by code_simp
  have ndov: "\<not> truthy (get_attribute_value create_p_B_bound ''declared_overloaded'')"
    by code_simp
  have r1: "the (get_referrer S0 11) = 1"
    by code_simp
  from C7_validate [OF bound rctx decl owned refd refl refl] req ndov ib r1
  show ?thesis by simp
qed

subsection \<open>C10: the explicit bases kept by an implicit rebase\<close>

text \<open>
  Claim C10. In \<^verbatim>\<open>get_ref_implicit_base_delta\<close> the explicit bases retained
  are exactly the current bases that are generic and whose name differs from
  the class's default base name; the target handed to \<^verbatim>\<open>delta_bases\<close> is the
  implicit bases followed by these. A current base named as the default base
  is therefore not in the target (unless an implicit base has that name), and
  the computed delta lists it among the removed bases.
\<close>

theorem C10_explicit_bases:
  "set (explicit_bases_of E schema refcls) =
      {b \<in> set (get_bases schema refcls). generic schema b
          \<and> Some (get_name schema b) \<noteq> get_default_base_name E (type_of E refcls)}
   \<and> get_ref_implicit_base_delta E schema refcls ibs =
       delta_bases (map (get_name schema) (get_bases schema refcls))
         (map (get_name schema) ibs @ map (get_name schema) (explicit_bases_of E schema refcls))
   \<and> (\<forall>b. b \<in> set (get_bases schema refcls)
          \<and> Some (get_name schema b) = get_default_base_name E (type_of E refcls)
          \<and> get_name schema b \<notin> get_name schema ` set ibs
        \<longrightarrow> get_name schema b \<in> set (fst (get_ref_implicit_base_delta E schema refcls ibs)))"
proof (intro conjI allI impI)
  show "set (explicit_bases_of E schema refcls) =
      {b \<in> set (get_bases schema refcls). generic schema b
          \<and> Some (get_name schema b) \<noteq> get_default_base_name E (type_of E refcls)}"
    by (auto simp add: explicit_bases_of_def Let_def)
  show "get_ref_implicit_base_delta E schema refcls ibs =
       delta_bases (map (get_name schema) (get_bases schema refcls))
         (map (get_name schema) ibs @ map (get_name schema) (explicit_bases_of E schema refcls))"
    by (simp add: get_ref_implicit_base_delta_def Let_def)
next
  fix b
  assume a: "b \<in> set (get_bases schema refcls)
          \<and> Some (get_name schema b) = get_default_base_name E (type_of E refcls)
          \<and> get_name schema b \<notin> get_name schema ` set ibs"
  then have "get_name schema b \<notin> get_name schema ` set (explicit_bases_of E schema refcls)"
    by (auto simp add: explicit_bases_of_def Let_def)
  with a show "get_name schema b \<in> set (fst (get_ref_implicit_base_delta E schema refcls ibs))"
    by (auto simp add: get_ref_implicit_base_delta_def delta_bases_def Let_def)
qed

text \<open>
  Worked example: \<open>p@B\<close> has the bases \<open>[p@A, p, property]\<close>; rebasing it on
  the implicit base \<open>p@A\<close> keeps the generic \<open>p\<close> and removes the default base
  \<open>property\<close>.
\<close>

theorem C10_explicit_bases_witness:
  "explicit_bases_of E0 S0 12 = [20]
   \<and> ''property'' \<in> set (fst (get_ref_implicit_base_delta E0 S0 12 [11]))"
proof -
  have a: "10 \<in> set (get_bases S0 12)
          \<and> Some (get_name S0 10) = get_default_base_name E0 (type_of E0 12)
          \<and> get_name S0 10 \<notin> get_name S0 ` set [11]"
    by code_simp
  have n: "get_name S0 10 = ''property''"
    by code_simp
  have e: "explicit_bases_of E0 S0 12 = [20]"
    by code_simp
  have "get_name S0 10 \<in> set (fst (get_ref_implicit_base_delta E0 S0 12 [11]))"
    using C10_explicit_bases [of E0 S0 12 "[11]", THEN conjunct2, THEN conjunct2,
        THEN spec, of 10] a
    by (rule mp)
  with n e show ?thesis
    by simp
qed

subsection \<open>Helper facts for the delete engine\<close>

lemma set_map_filter_iff:
  "set (List.map_filter f xs) = {y. \<exists>x\<in>set xs. f x = Some y}"
  by (induction xs) (auto split: option.splits)

lemma deleted_bases_iff:
  "deleted_bases self context =
     {d. \<exists>f\<in>set (stack context). cmd_class (fr_op f) = cmd_class self
           \<and> scls (head (fr_op f)) = Some d}"
  by (auto simp add: deleted_bases_def set_map_filter_iff split: if_splits)

lemma delete_ref_children_total:
  assumes "\<forall>c s k. \<exists>s'. cmd_apply E c s k = Inr s'"
  shows "\<exists>r. delete_ref_children E rd n referrer context cs (self, schema) = Inr r"
proof (induction cs arbitrary: self schema)
  case Nil
  then show ?case by simp
next
  case (Cons child rest)
  show ?case
  proof (cases "map_of (get_field_value schema child (attr rd))
                  (get_key_for_name E (type_of E referrer) (attr rd) schema
                     (classname_from_name E n (get_name schema child)))")
    case None
    then show ?thesis using Cons.IH by (simp add: Let_def)
  next
    case (Some existing)
    obtain s' where "cmd_apply E (propagate_ref_deletion_cmd E schema rd child existing) schema
        (new_context E (init_delta_command E child schema AlterObject id) context child) = Inr s'"
      using assms by blast
    then show ?thesis using Some Cons.IH
      by (simp add: Let_def propagate_ref_deletion_def)
  qed
qed

lemma delete_ref_children_errors:
  "delete_ref_children E rd n referrer context cs (self, schema) = Inl e
   \<Longrightarrow> \<exists>c s al child. cmd_apply E c s (new_context E al context child) = Inl e"
proof (induction cs arbitrary: self schema)
  case Nil
  then show ?case by simp
next
  case (Cons child rest)
  show ?case
  proof (cases "map_of (get_field_value schema child (attr rd))
                  (get_key_for_name E (type_of E referrer) (attr rd) schema
                     (classname_from_name E n (get_name schema child)))")
    case None
    then show ?thesis using Cons by (simp add: Let_def)
  next
    case (Some existing)
    show ?thesis
    proof (cases "cmd_apply E (propagate_ref_deletion_cmd E schema rd child existing) schema
        (new_context E (init_delta_command E child schema AlterObject id) context child)")
      case (Inl e')
      then have "e' = e" using Some Cons.prems
        by (simp add: Let_def propagate_ref_deletion_def)
      then show ?thesis using Inl by blast
    next
      case (Inr s')
      then show ?thesis using Some Cons
        by (simp add: Let_def propagate_ref_deletion_def)
    qed
  qed
qed

subsection \<open>C4: an inherited ref cannot be dropped\<close>

text \<open>
  Claim C4. A delete command bound to the ref \<open>ob\<close> runs \<^verbatim>\<open>_delete_ref\<close> for
  an inheriting referrer, with \<open>context.canonical\<close> false, not inside a larger
  deletion (\<^verbatim>\<open>in_deletion(offset=1)\<close> false) and with
  \<open>disable_dep_verification\<close> unset. The ref is first removed from the
  referrer's collection; \<open>remaining\<close> is the set of its implicit bases in that
  schema minus the objects of the delete commands of the same class on the
  context stack. If \<open>remaining\<close> is non-empty the result is the \<^verbatim>\<open>SchemaError\<close>
  "cannot drop inherited ..." listing the referrers (the back-reference
  field) of the remaining bases. If it is empty the deletion proceeds to
  the children of the referrer, and it returns whenever the nested applies
  return.
\<close>

theorem C4_delete_inherited:
  assumes bound: "scls (head self) = Some ob"
    and inh: "is_InheritingObject E (type_of E referrer)"
    and nc: "\<not> canonical context"
    and nd: "\<not> in_deletion E context 1"
    and ndv: "\<not> disable_dep_verification context"
    and rd: "rd = get_refdict_for_class E (type_of E referrer) (type_of E ob)"
    and s1: "schema1 = del_classref E schema referrer (attr rd)
                         (get_key_for E (type_of E referrer) (attr rd) schema ob)"
    and rem: "remaining =
                set (get_implicit_ref_bases E schema1 referrer (attr rd) (get_name schema ob))
                - {d. \<exists>f\<in>set (stack context). cmd_class (fr_op f) = cmd_class self
                        \<and> scls (head (fr_op f)) = Some d}"
  shows "(remaining \<noteq> {} \<longrightarrow>
            delete_ref E self schema context referrer =
              Inl (SchemaError ''cannot drop inherited'' ob
                     (Unordered ((\<lambda>b. get_field_value_obj schema1 b (backref_attr rd))
                                   ` remaining))))
       \<and> (remaining = {} \<longrightarrow>
            delete_ref E self schema context referrer =
              delete_ref_children E rd (get_name schema ob) referrer context
                (children schema1 referrer) (self, schema1)
          \<and> ((\<forall>c s k. \<exists>s'. cmd_apply E c s k = Inr s') \<longrightarrow>
               (\<exists>r. delete_ref E self schema context referrer = Inr r)))"
proof -
  have r: "remaining =
      set (get_implicit_ref_bases E schema1 referrer (attr rd) (get_name schema ob))
      - deleted_bases self context"
    by (simp add: rem deleted_bases_iff)
  have e: "remaining \<noteq> {} \<Longrightarrow> delete_ref E self schema context referrer =
              Inl (SchemaError ''cannot drop inherited'' ob
                     (Unordered ((\<lambda>b. get_field_value_obj schema1 b (backref_attr rd))
                                   ` remaining)))"
    using bound inh nc nd ndv
    by (simp add: delete_ref_def Let_def r rd s1)
  have p: "remaining = {} \<Longrightarrow> delete_ref E self schema context referrer =
              delete_ref_children E rd (get_name schema ob) referrer context
                (children schema1 referrer) (self, schema1)"
    using bound inh nc nd ndv
    by (simp add: delete_ref_def Let_def r rd s1)
  show ?thesis
    using e p delete_ref_children_total[of E rd "get_name schema ob" referrer "context"
        "children schema1 referrer" self schema1]
    by auto
qed

text \<open>
  Worked example: dropping \<open>p@B\<close> alone fails and names the parent \<open>A\<close>;
  dropping it while the delete command of \<open>p@A\<close> is on the stack succeeds.
\<close>

theorem C4_delete_inherited_witness:
  "delete_ref E0 delete_p_B S0 ctxB 2
     = Inl (SchemaError ''cannot drop inherited'' 12 (Unordered {1}))
   \<and> (\<exists>r. delete_ref E0 delete_p_B S0 ctxDel 2 = Inr r)"
proof -
  have bound: "scls (head delete_p_B) = Some 12" by code_simp
  have inh: "is_InheritingObject E0 (type_of E0 2)" by code_simp
  have rd: "rd0 = get_refdict_for_class E0 (type_of E0 2) (type_of E0 12)" by code_simp
  have a: "delete_ref E0 delete_p_B S0 ctxB 2
     = Inl (SchemaError ''cannot drop inherited'' 12 (Unordered {1}))"
  proof -
    have nc: "\<not> canonical ctxB" by code_simp
    have nd: "\<not> in_deletion E0 ctxB 1" by code_simp
    have ndv: "\<not> disable_dep_verification ctxB" by code_simp
    have rem: "{11} =
        set (get_implicit_ref_bases E0 (del_classref E0 S0 2 (attr rd0)
               (get_key_for E0 (type_of E0 2) (attr rd0) S0 12)) 2 (attr rd0) (get_name S0 12))
        - {d. \<exists>f\<in>set (stack ctxB). cmd_class (fr_op f) = cmd_class delete_p_B
                \<and> scls (head (fr_op f)) = Some d}"
      unfolding deleted_bases_iff[symmetric] by code_simp
    have par: "(\<lambda>b. get_field_value_obj (del_classref E0 S0 2 (attr rd0)
                 (get_key_for E0 (type_of E0 2) (attr rd0) S0 12)) b (backref_attr rd0)) ` {11}
               = {1}"
      by code_simp
    from C4_delete_inherited [OF bound inh nc nd ndv rd refl rem] par
    show ?thesis by simp
  qed
  have b: "\<exists>r. delete_ref E0 delete_p_B S0 ctxDel 2 = Inr r"
  proof -
    have nc: "\<not> canonical ctxDel" by code_simp
    have nd: "\<not> in_deletion E0 ctxDel 1" by code_simp
    have ndv: "\<not> disable_dep_verification ctxDel" by code_simp
    have rem: "{} =
        set (get_implicit_ref_bases E0 (del_classref E0 S0 2 (attr rd0)
               (get_key_for E0 (type_of E0 2) (attr rd0) S0 12)) 2 (attr rd0) (get_name S0 12))
        - {d. \<exists>f\<in>set (stack ctxDel). cmd_class (fr_op f) = cmd_class delete_p_B
                \<and> scls (head (fr_op f)) = Some d}"
      unfolding deleted_bases_iff[symmetric] by code_simp
    have ap: "\<forall>c s k. \<exists>s'. cmd_apply E0 c s k = Inr s'" by (simp add: E0_def)
    from C4_delete_inherited [OF bound inh nc nd ndv rd refl rem]
    have "(\<forall>c s k. \<exists>s'. cmd_apply E0 c s k = Inr s') \<longrightarrow>
               (\<exists>r. delete_ref E0 delete_p_B S0 ctxDel 2 = Inr r)"
      by blast
    with ap show ?thesis by blast
  qed
  from a b show ?thesis by simp
qed

subsection \<open>C2: propagating a deletion to a child ref\<close>

text \<open>
  Claim C2, as the code has it. \<^verbatim>\<open>_propagate_ref_deletion\<close> synthesizes one
  command \<open>cmd\<close> for the child ref and applies it at once; the schema it
  returns is the result of that application. If the child ref is owned or
  its recomputed implicit bases \<open>ibs\<close> are non-empty, \<open>cmd\<close> is an
  \<^verbatim>\<open>AlterObject\<close> on the child ref with exactly one nested command, which
  carries the computed removed/added base deltas; otherwise \<open>cmd\<close> is the
  \<^verbatim>\<open>DeleteObject\<close> of the child ref. The nested command, however, is of
  kind \<^verbatim>\<open>AlterObject\<close>: the source requests it with \<^verbatim>\<open>sd.AlterObject\<close>, not
  with \<^verbatim>\<open>inheriting.RebaseInheritingObject\<close> as the claim, the source's own
  comment ("we need to do a rebase") and \<^verbatim>\<open>derive_ref\<close> have it.
\<close>

theorem C2_propagate_ref_deletion:
  assumes ib: "ibs = get_implicit_ref_bases E schema child (attr refdict) (get_name schema child_ref)"
    and cmd: "cmd = propagate_ref_deletion_cmd E schema refdict child child_ref"
  shows "propagate_ref_deletion E self schema context refdict child child_ref =
           (case cmd_apply E cmd schema context of
              Inl e \<Rightarrow> Inl e
            | Inr schema' \<Rightarrow> Inr (schema', cmd))
       \<and> (get_is_owned schema child_ref \<or> ibs \<noteq> [] \<longrightarrow>
            kind (head cmd) = AlterObject \<and> scls (head cmd) = Some child_ref
          \<and> (\<exists>inner. ops cmd = [inner]
                \<and> kind (head inner) = AlterObject
                \<and> scls (head inner) = Some child_ref
                \<and> (removed_bases (head inner), added_bases (head inner))
                    = get_ref_implicit_base_delta E schema child_ref ibs))
       \<and> (\<not> (get_is_owned schema child_ref \<or> ibs \<noteq> []) \<longrightarrow>
            cmd = init_delta_command E child_ref schema DeleteObject id)"
proof (intro conjI impI)
  show "propagate_ref_deletion E self schema context refdict child child_ref =
           (case cmd_apply E cmd schema context of
              Inl e \<Rightarrow> Inl e
            | Inr schema' \<Rightarrow> Inr (schema', cmd))"
    by (simp add: propagate_ref_deletion_def cmd[symmetric] Let_def)
next
  assume a: "get_is_owned schema child_ref \<or> ibs \<noteq> []"
  obtain r a' where d: "get_ref_implicit_base_delta E schema child_ref ibs = (r, a')"
    by (cases "get_ref_implicit_base_delta E schema child_ref ibs")
  have c: "cmd = add (init_delta_command E child_ref schema AlterObject id)
                   (init_delta_command E child_ref schema AlterObject
                      (\<lambda>h. h\<lparr>added_bases := a', removed_bases := r\<rparr>))"
    using a d by (simp add: cmd propagate_ref_deletion_cmd_def ib[symmetric] Let_def)
  show "kind (head cmd) = AlterObject"
    by (simp add: c add_def init_delta_command_def new_cmd_def)
  show "scls (head cmd) = Some child_ref"
    by (simp add: c add_def init_delta_command_def new_cmd_def)
  show "\<exists>inner. ops cmd = [inner]
                \<and> kind (head inner) = AlterObject
                \<and> scls (head inner) = Some child_ref
                \<and> (removed_bases (head inner), added_bases (head inner))
                    = get_ref_implicit_base_delta E schema child_ref ibs"
    by (simp add: c d add_def init_delta_command_def new_cmd_def)
next
  assume "\<not> (get_is_owned schema child_ref \<or> ibs \<noteq> [])"
  then show "cmd = init_delta_command E child_ref schema DeleteObject id"
    by (simp add: cmd propagate_ref_deletion_cmd_def ib[symmetric] Let_def)
qed

text \<open>
  Worked example: \<open>p@A\<close> has been removed from \<open>A\<close>; the owned \<open>p@B\<close> is kept
  and the nested command, which drops the bases \<open>p@A\<close> and \<open>property\<close>, is an
  \<^verbatim>\<open>AlterObject\<close> and not a \<^verbatim>\<open>RebaseInheritingObject\<close>.
\<close>

theorem C2_propagate_ref_deletion_witness:
  "\<exists>inner. ops (propagate_ref_deletion_cmd E0 S1 rd0 2 12) = [inner]
     \<and> kind (head inner) = AlterObject
     \<and> kind (head inner) \<noteq> RebaseInheritingObject
     \<and> removed_bases (head inner) = [''p@A'', ''property'']
     \<and> added_bases (head inner) = []"
proof -
  have ib: "[] = get_implicit_ref_bases E0 S1 2 (attr rd0) (get_name S1 12)"
    by code_simp
  have own: "get_is_owned S1 12"
    by code_simp
  have d: "get_ref_implicit_base_delta E0 S1 12 [] = ([''p@A'', ''property''], [])"
    by code_simp
  have "\<exists>inner. ops (propagate_ref_deletion_cmd E0 S1 rd0 2 12) = [inner]
          \<and> kind (head inner) = AlterObject
          \<and> scls (head inner) = Some 12
          \<and> (removed_bases (head inner), added_bases (head inner))
              = get_ref_implicit_base_delta E0 S1 12 []"
    using C2_propagate_ref_deletion [OF ib refl, THEN conjunct2, THEN conjunct1] own
    by blast
  then show ?thesis
    unfolding d by auto
qed

subsection \<open>Helper facts for the application of a delete stack\<close>

lemma apply_ops_error:
  "apply_ops ap cs s k = Inl e \<Longrightarrow> \<exists>c s'. ap c s' k = Inl e"
proof (induction cs arbitrary: s)
  case Nil
  then show ?case by simp
next
  case (Cons c cs)
  then show ?case by (cases "ap c s k") auto
qed

lemma delete_ref_nodep_errors:
  assumes "disable_dep_verification context"
      and "delete_ref E self s context referrer = Inl e"
  shows "e = AttributeError ''scls''
         \<or> (\<exists>c s' al child. cmd_apply E c s' (new_context E al context child) = Inl e)"
  using assms delete_ref_children_errors
  by (auto simp add: delete_ref_def Let_def split: option.splits if_splits)

lemma get_referrer_context_error:
  "get_referrer_context E cls k = Inl e \<Longrightarrow> \<not> cannot_drop_inherited e"
  by (auto simp add: get_referrer_context_def get_referrer_context_class_def
        cannot_drop_inherited_def split: option.splits sum.splits)

lemma apply_cmd_nodep:
  assumes fw: "\<forall>ap c s k e. disable_dep_verification k \<and> cannot_drop_inherited e
                  \<and> framework ap c s k = Inl e
                \<longrightarrow> (\<exists>c' s' k'. disable_dep_verification k' \<and> ap c' s' k' = Inl e)"
  shows "disable_dep_verification k \<Longrightarrow> apply_cmd E framework n cmd s k = Inl e
         \<Longrightarrow> \<not> cannot_drop_inherited e"
proof (induction n arbitrary: cmd s k e)
  case 0
  then show ?case by (auto simp add: cannot_drop_inherited_def)
next
  case (Suc n)
  let ?ap = "apply_cmd E framework n"
  have ops_ok: "\<not> cannot_drop_inherited e'"
    if "apply_ops ?ap cs s' k' = Inl e'" "disable_dep_verification k'" for cs s' k' e'
    using apply_ops_error[OF that(1)] Suc.IH that(2) by blast
  have fw_ok: "\<not> cannot_drop_inherited e'"
    if "framework ?ap c s' k' = Inl e'" "disable_dep_verification k'" for c s' k' e'
    using fw that Suc.IH by blast
  show ?case
  proof (cases "kind (head cmd) = DeltaRoot")
    case True
    then show ?thesis using Suc.prems ops_ok by simp
  next
    case nroot: False
    show ?thesis
    proof (cases "scls (head cmd)")
      case None
      then show ?thesis using Suc.prems nroot by (auto simp add: cannot_drop_inherited_def)
    next
      case (Some ob)
      let ?k = "new_context E cmd k ob"
      let ?sup = "\<lambda>self s k. case framework ?ap self s k of Inl e \<Rightarrow> Inl e
                     | Inr s1 \<Rightarrow> apply_ops ?ap (ops self) s1 k"
      have flag: "disable_dep_verification ?k"
        using Suc.prems(1) by (simp add: new_context_def)
      have sup_ok: "\<not> cannot_drop_inherited e'" if "?sup cmd s ?k = Inl e'" for e'
        using that fw_ok[OF _ flag] ops_ok[OF _ flag]
        by (auto split: sum.splits)
      show ?thesis
      proof (cases "kind (head cmd) = DeleteObject
                    \<and> is_ReferencedInheritingObjectCommand E (cmd_class cmd)")
        case False
        then have "?sup cmd s ?k = Inl e"
          using Suc.prems(2) nroot Some by (auto simp add: Let_def)
        then show ?thesis by (rule sup_ok)
      next
        case True
        let ?E = "E\<lparr>cmd_apply := ?ap\<rparr>"
        have di: "delete_innards ?E ?sup cmd s ?k = Inl e"
          using Suc.prems(2) nroot Some True
          by (auto simp add: Let_def split: sum.splits prod.splits)
        show ?thesis
        proof (cases "?sup cmd s ?k")
          case (Inl e')
          then have "e' = e" using di by (simp add: delete_innards_def)
          then show ?thesis using sup_ok Inl by blast
        next
          case (Inr s1)
          show ?thesis
          proof (cases "get_referrer_context ?E (cmd_class cmd) ?k")
            case (Inl e')
            then have "e' = e" using di Inr by (simp add: delete_innards_def)
            then show ?thesis using get_referrer_context_error Inl by blast
          next
            case rc: (Inr fo)
            show ?thesis
            proof (cases fo)
              case None
              then show ?thesis using di Inr rc by (simp add: delete_innards_def)
            next
              case (Some f)
              then have dr: "delete_ref ?E cmd s1 ?k (fr_scls f) = Inl e"
                using di Inr rc by (simp add: delete_innards_def)
              have flag': "disable_dep_verification (new_context ?E al ?k child)" for al child
                using flag by (simp add: new_context_def)
              from delete_ref_nodep_errors[OF flag dr]
              show ?thesis
              proof
                assume "e = AttributeError ''scls''"
                then show ?thesis by (simp add: cannot_drop_inherited_def)
              next
                assume "\<exists>c s' al child. cmd_apply ?E c s' (new_context ?E al ?k child) = Inl e"
                then obtain c s' al child
                  where "?ap c s' (new_context ?E al ?k child) = Inl e" by auto
                then show ?thesis using Suc.IH flag' by blast
              qed
            qed
          qed
        qed
      qed
    qed
  qed
qed

subsection \<open>C9: \<^verbatim>\<open>ReferencedObject.delete\<close> skips the dependency check\<close>

text \<open>
  Claim C9. \<^verbatim>\<open>ReferencedObject.delete\<close> builds its context with
  \<open>disable_dep_verification\<close> true, and a deletion through it never returns
  the "cannot drop inherited" \<^verbatim>\<open>SchemaError\<close>: whatever the object, the
  schema, the implicit bases of the ref, the command stack that the framework
  builds for it and the recursion limit. The part of apply that the framework
  defines is assumed not to raise that error of its own under a context with
  the flag set: when it returns it, a nested apply that it ran under a
  context with the flag set has returned it.
\<close>

theorem C9_delete_never_cannot_drop_inherited:
  assumes "\<forall>ap c s k e. disable_dep_verification k \<and> cannot_drop_inherited e
                  \<and> framework ap c s k = Inl e
                \<longrightarrow> (\<exists>c' s' k'. disable_dep_verification k' \<and> ap c' s' k' = Inl e)"
  shows "disable_dep_verification (delete_context E)
         \<and> (\<forall>ob d. delete E framework limit self schema
                     \<noteq> Inl (SchemaError ''cannot drop inherited'' ob d))"
proof (intro conjI allI)
  show flag: "disable_dep_verification (delete_context E)"
    by (simp add: delete_context_def)
  fix ob d
  show "delete E framework limit self schema \<noteq> Inl (SchemaError ''cannot drop inherited'' ob d)"
  proof
    assume a: "delete E framework limit self schema = Inl (SchemaError ''cannot drop inherited'' ob d)"
    obtain delta cmd where st: "get_command_stack E self schema (delete_context E) DeleteObject = (delta, cmd)"
      by (cases "get_command_stack E self schema (delete_context E) DeleteObject")
    let ?k = "(delete_context E)\<lparr>stack := stack (delete_context E) @
                 [\<lparr>fr_mro = [''DeltaRootContext''], fr_op = delta, fr_scls = self\<rparr>]\<rparr>"
    have "disable_dep_verification ?k" using flag by simp
    moreover have "apply_cmd E framework limit delta schema ?k
                     = Inl (SchemaError ''cannot drop inherited'' ob d)"
      using a unfolding delete_def apply_delta_def Let_def st by simp
    ultimately have "\<not> cannot_drop_inherited (SchemaError ''cannot drop inherited'' ob d)"
      by (rule apply_cmd_nodep[OF assms])
    then show False by (simp add: cannot_drop_inherited_def)
  qed
qed

text \<open>
  Worked example: \<open>p@B\<close> has the implicit base \<open>p@A\<close>, which is not being
  deleted. \<^verbatim>\<open>delete\<close> of \<open>p@B\<close> returns a schema in which \<open>B\<close> has no
  property left; the same stack applied under the default context fails with
  "cannot drop inherited" and names the parent \<open>A\<close>.
\<close>

theorem C9_delete_never_cannot_drop_inherited_witness:
  "disable_dep_verification (delete_context E1)
   \<and> (\<forall>ob d. delete E1 framework0 5 12 S0 \<noteq> Inl (SchemaError ''cannot drop inherited'' ob d))
   \<and> get_implicit_ref_bases E1 S0 2 ''properties'' (get_name S0 12) = [11]
   \<and> \<not> isl (delete E1 framework0 5 12 S0)
   \<and> get_field_value (projr (delete E1 framework0 5 12 S0)) 2 ''properties'' = []
   \<and> (case apply_delta E1 framework0 5
              (fst (get_command_stack E1 12 S0 (default_context E1) DeleteObject))
              S0 (default_context E1) 12 of
         Inl e \<Rightarrow> e = SchemaError ''cannot drop inherited'' 12 (Unordered {1})
       | Inr s \<Rightarrow> False)"
proof -
  have fw: "\<forall>ap c s k e. disable_dep_verification k \<and> cannot_drop_inherited e
                  \<and> framework0 ap c s k = Inl e
                \<longrightarrow> (\<exists>c' s' k'. disable_dep_verification k' \<and> ap c' s' k' = Inl e)"
    by (simp add: framework0_def)
  have a: "disable_dep_verification (delete_context E1)
           \<and> (\<forall>ob d. delete E1 framework0 5 12 S0
                       \<noteq> Inl (SchemaError ''cannot drop inherited'' ob d))"
    using C9_delete_never_cannot_drop_inherited [OF fw] .
  have b: "get_implicit_ref_bases E1 S0 2 ''properties'' (get_name S0 12) = [11]"
    by code_simp
  have c: "\<not> isl (delete E1 framework0 5 12 S0)"
    by code_simp
  have d: "get_field_value (projr (delete E1 framework0 5 12 S0)) 2 ''properties'' = []"
    by code_simp
  have e: "(case apply_delta E1 framework0 5
              (fst (get_command_stack E1 12 S0 (default_context E1) DeleteObject))
              S0 (default_context E1) 12 of
         Inl e \<Rightarrow> e = SchemaError ''cannot drop inherited'' 12 (Unordered {1})
       | Inr s \<Rightarrow> False)"
    by code_simp
  from a b c d e show ?thesis by blast
qed

subsection \<open>Helper facts for \<^verbatim>\<open>AlterOwned\<close>\<close>

lemma add_simps: "head (add c x) = head c" "ops (add c x) = ops c @ [x]"
  by (simp_all add: add_def)

lemma init_delta_command_simps:
  "kind (head (init_delta_command E ob s k id)) = k"
  "scls (head (init_delta_command E ob s k id)) = Some ob"
  "ops (init_delta_command E ob s k id) = []"
  "cmd_mcls (head (init_delta_command E ob s k id)) = type_of E ob"
  "classname (head (init_delta_command E ob s k id)) = get_name s ob"
  by (simp_all add: init_delta_command_def new_cmd_def)

lemma set_attribute_value_simps:
  "kind (head (set_attribute_value c k v)) = kind (head c)"
  "scls (head (set_attribute_value c k v)) = scls (head c)"
  "ops (set_attribute_value c k v) = ops c"
  by (simp_all add: set_attribute_value_def)

lemma drop_owned_refs_loop_shape:
  assumes "drop_owned_refs_loop E context refs (self, s) = Inr (self', s')"
  shows "\<exists>cmds ss. length cmds = length refs \<and> length ss = Suc (length refs)
        \<and> ss ! 0 = s \<and> ss ! length refs = s'
        \<and> head self' = head self \<and> ops self' = ops self @ cmds
        \<and> (\<forall>i<length refs.
             if get_implicit_bases (ss ! i) (refs ! i) \<noteq> [] \<and> get_is_owned (ss ! i) (refs ! i)
             then nested_alter_owned_false (refs ! i) (cmds ! i)
                  \<and> cmd_apply E (cmds ! i) (ss ! i) context = Inr (ss ! Suc i)
             else delete_object_of (refs ! i) (cmds ! i) \<and> ss ! Suc i = ss ! i)"
  using assms
proof (induction refs arbitrary: self s)
  case Nil
  then show ?case
    by (intro exI[of _ "[]"] exI[of _ "[s]"]) simp
next
  case (Cons r rest)
  show ?case
  proof (cases "get_implicit_bases s r \<noteq> [] \<and> get_is_owned s r")
    case True
    define alter where "alter = add (init_delta_command E r s AlterObject id)
        (set_attribute_value (init_delta_command E r s AlterOwned id) ''is_owned'' (VBool False))"
    have sh: "nested_alter_owned_false r alter"
      by (simp add: nested_alter_owned_false_def alter_def add_simps init_delta_command_simps
          set_attribute_value_simps get_set_attribute_value)
    from Cons.prems True obtain s1 where
      ap: "cmd_apply E alter s context = Inr s1"
      and rec: "drop_owned_refs_loop E context rest (add self alter, s1) = Inr (self', s')"
      by (auto simp add: Let_def alter_def split: sum.splits)
    from Cons.IH[OF rec] obtain cmds ss where
      ih: "length cmds = length rest" "length ss = Suc (length rest)"
        "ss ! 0 = s1" "ss ! length rest = s'"
        "head self' = head (add self alter)" "ops self' = ops (add self alter) @ cmds"
        "\<forall>i<length rest.
             if get_implicit_bases (ss ! i) (rest ! i) \<noteq> [] \<and> get_is_owned (ss ! i) (rest ! i)
             then nested_alter_owned_false (rest ! i) (cmds ! i)
                  \<and> cmd_apply E (cmds ! i) (ss ! i) context = Inr (ss ! Suc i)
             else delete_object_of (rest ! i) (cmds ! i) \<and> ss ! Suc i = ss ! i"
      by blast
    show ?thesis
    proof (intro exI[of _ "alter # cmds"] exI[of _ "s # ss"] conjI allI impI)
      fix i assume "i < length (r # rest)"
      then show "if get_implicit_bases ((s # ss) ! i) ((r # rest) ! i) \<noteq> []
                    \<and> get_is_owned ((s # ss) ! i) ((r # rest) ! i)
             then nested_alter_owned_false ((r # rest) ! i) ((alter # cmds) ! i)
                  \<and> cmd_apply E ((alter # cmds) ! i) ((s # ss) ! i) context = Inr ((s # ss) ! Suc i)
             else delete_object_of ((r # rest) ! i) ((alter # cmds) ! i)
                  \<and> (s # ss) ! Suc i = (s # ss) ! i"
        using True sh ap ih(3) ih(7) by (cases i) auto
    qed (use ih in \<open>simp_all add: add_simps\<close>)
  next
    case False
    define del where "del = init_delta_command E r s DeleteObject id"
    have sh: "delete_object_of r del"
      by (simp add: delete_object_of_def del_def init_delta_command_simps)
    from Cons.prems False have
      rec: "drop_owned_refs_loop E context rest (add self del, s) = Inr (self', s')"
      by (auto simp add: Let_def del_def)
    from Cons.IH[OF rec] obtain cmds ss where
      ih: "length cmds = length rest" "length ss = Suc (length rest)"
        "ss ! 0 = s" "ss ! length rest = s'"
        "head self' = head (add self del)" "ops self' = ops (add self del) @ cmds"
        "\<forall>i<length rest.
             if get_implicit_bases (ss ! i) (rest ! i) \<noteq> [] \<and> get_is_owned (ss ! i) (rest ! i)
             then nested_alter_owned_false (rest ! i) (cmds ! i)
                  \<and> cmd_apply E (cmds ! i) (ss ! i) context = Inr (ss ! Suc i)
             else delete_object_of (rest ! i) (cmds ! i) \<and> ss ! Suc i = ss ! i"
      by blast
    show ?thesis
    proof (intro exI[of _ "del # cmds"] exI[of _ "s # ss"] conjI allI impI)
      fix i assume "i < length (r # rest)"
      then show "if get_implicit_bases ((s # ss) ! i) ((r # rest) ! i) \<noteq> []
                    \<and> get_is_owned ((s # ss) ! i) ((r # rest) ! i)
             then nested_alter_owned_false ((r # rest) ! i) ((del # cmds) ! i)
                  \<and> cmd_apply E ((del # cmds) ! i) ((s # ss) ! i) context = Inr ((s # ss) ! Suc i)
             else delete_object_of ((r # rest) ! i) ((del # cmds) ! i)
                  \<and> (s # ss) ! Suc i = (s # ss) ! i"
        using False sh ih(3) ih(7) by (cases i) auto
    qed (use ih in \<open>simp_all add: add_simps\<close>)
  qed
qed

lemma E0_super_alter_begin:
  "super_alter_begin E0 c s k =
     (case (scls (head c), map_of (attrs (head c)) ''is_owned'') of
          (Some ob, Some (VBool b)) \<Rightarrow>
            Inr (s\<lparr>get_is_owned := (\<lambda>ob'. if ob' = ob then b else get_is_owned s ob')\<rparr>)
        | _ \<Rightarrow> Inr s)"
  by (simp add: E0_def)

subsection \<open>C6: dropping ownership\<close>

text \<open>
  Claim C6. An \<^verbatim>\<open>AlterOwned\<close> command bound to the ref \<open>ob\<close> flips
  \<open>is_owned\<close> from true to false (the generic alter returns \<open>schema1\<close>) with
  \<open>context.canonical\<close> false. If \<open>ob\<close> has no implicit bases the command
  raises \<^verbatim>\<open>InvalidDefinitionError\<close> ("cannot drop owned ..., as it is not
  inherited"). Otherwise the fields are re-inherited from the bases of \<open>ob\<close>
  with \<open>ignore_local\<close> true and the RefDicts of the class of \<open>ob\<close> are
  processed one after the other. Processing one RefDict appends one command
  per sub-ref, in the order of the collection: where the sub-ref has
  implicit bases and is owned in the schema reached so far, an
  \<^verbatim>\<open>AlterObject\<close> with a nested \<^verbatim>\<open>AlterOwned\<close> setting \<open>is_owned\<close> to false,
  applied at once; for any other sub-ref a \<^verbatim>\<open>DeleteObject\<close>, which leaves the
  schema as it is.
\<close>

theorem C6_alter_owned_drop:
  assumes bound: "scls (head self) = Some ob"
    and sup: "super_alter_begin E self schema context = Inr schema1"
    and was: "get_is_owned schema ob"
    and now: "\<not> get_is_owned schema1 ob"
    and nc: "\<not> canonical context"
  shows "(get_implicit_bases schema1 ob = [] \<longrightarrow>
            alter_owned_begin E self schema context
              = Inl (InvalidDefinitionError ''cannot drop owned'' ob))
       \<and> (get_implicit_bases schema1 ob \<noteq> [] \<longrightarrow>
            alter_owned_begin E self schema context =
              (case inherit_fields E self schema1 context (get_bases schema1 ob) True of
                 Inl e \<Rightarrow> Inl e
               | Inr schema2 \<Rightarrow>
                   drop_owned_refdicts E context (get_refdicts E (type_of E ob)) (self, schema2)))
       \<and> (\<forall>rd rds c s.
            drop_owned_refdicts E context (rd # rds) (c, s) =
              (case drop_owned_refs E c s context rd of
                 Inl e \<Rightarrow> Inl e
               | Inr r \<Rightarrow> drop_owned_refdicts E context rds r))
       \<and> (\<forall>rd c s c' s'.
            scls (head c) = Some ob \<and> drop_owned_refs E c s context rd = Inr (c', s') \<longrightarrow>
            (\<exists>cmds ss.
               let refs = map snd (get_field_value s ob (attr rd))
               in length cmds = length refs \<and> length ss = Suc (length refs)
                \<and> ss ! 0 = s \<and> ss ! length refs = s'
                \<and> head c' = head c \<and> ops c' = ops c @ cmds
                \<and> (\<forall>i<length refs.
                     if get_implicit_bases (ss ! i) (refs ! i) \<noteq> []
                        \<and> get_is_owned (ss ! i) (refs ! i)
                     then nested_alter_owned_false (refs ! i) (cmds ! i)
                          \<and> cmd_apply E (cmds ! i) (ss ! i) context = Inr (ss ! Suc i)
                     else delete_object_of (refs ! i) (cmds ! i) \<and> ss ! Suc i = ss ! i)))"
proof (intro conjI allI impI)
  assume "get_implicit_bases schema1 ob = []"
  then show "alter_owned_begin E self schema context
              = Inl (InvalidDefinitionError ''cannot drop owned'' ob)"
    using bound sup was now nc by (simp add: alter_owned_begin_def Let_def)
next
  assume "get_implicit_bases schema1 ob \<noteq> []"
  then show "alter_owned_begin E self schema context =
              (case inherit_fields E self schema1 context (get_bases schema1 ob) True of
                 Inl e \<Rightarrow> Inl e
               | Inr schema2 \<Rightarrow>
                   drop_owned_refdicts E context (get_refdicts E (type_of E ob)) (self, schema2))"
    using bound sup was now nc by (simp add: alter_owned_begin_def Let_def)
next
  fix rd rds c s
  show "drop_owned_refdicts E context (rd # rds) (c, s) =
              (case drop_owned_refs E c s context rd of
                 Inl e \<Rightarrow> Inl e
               | Inr r \<Rightarrow> drop_owned_refdicts E context rds r)"
    by simp
next
  fix rd c s c' s'
  assume a: "scls (head c) = Some ob \<and> drop_owned_refs E c s context rd = Inr (c', s')"
  then have "drop_owned_refs_loop E context (map snd (get_field_value s ob (attr rd))) (c, s)
               = Inr (c', s')"
    by (auto simp add: drop_owned_refs_def Let_def)
  from drop_owned_refs_loop_shape[OF this]
  show "\<exists>cmds ss.
               let refs = map snd (get_field_value s ob (attr rd))
               in length cmds = length refs \<and> length ss = Suc (length refs)
                \<and> ss ! 0 = s \<and> ss ! length refs = s'
                \<and> head c' = head c \<and> ops c' = ops c @ cmds
                \<and> (\<forall>i<length refs.
                     if get_implicit_bases (ss ! i) (refs ! i) \<noteq> []
                        \<and> get_is_owned (ss ! i) (refs ! i)
                     then nested_alter_owned_false (refs ! i) (cmds ! i)
                          \<and> cmd_apply E (cmds ! i) (ss ! i) context = Inr (ss ! Suc i)
                     else delete_object_of (refs ! i) (cmds ! i) \<and> ss ! Suc i = ss ! i)"
    unfolding Let_def by blast
qed

text \<open>
  Worked example: \<^verbatim>\<open>DROP OWNED\<close> on \<open>p@B\<close>, which inherits from \<open>p@A\<close>. Its
  constraint \<open>c@p@B\<close> is inherited and owned and gets the nested
  \<^verbatim>\<open>AlterOwned\<close>; \<open>d@p@B\<close> has no implicit base and is deleted.
\<close>

theorem C6_alter_owned_drop_witness:
  "(case alter_owned_begin E0 drop_owned_p_B S0 ctxB of
      Inl e \<Rightarrow> False
    | Inr (c, s) \<Rightarrow>
        (case ops c of
           [x, y] \<Rightarrow> nested_alter_owned_false 31 x \<and> delete_object_of 32 y
         | _ \<Rightarrow> False))"
proof -
  have bound: "scls (head drop_owned_p_B) = Some 12" by code_simp
  have sup: "super_alter_begin E0 drop_owned_p_B S0 ctxB = Inr S2"
    by (simp add: E0_super_alter_begin drop_owned_p_B_def set_attribute_value_def
        init_delta_command_def new_cmd_def S2_def)
  have was: "get_is_owned S0 12" by code_simp
  have now: "\<not> get_is_owned S2 12" by code_simp
  have nc: "\<not> canonical ctxB" by code_simp
  have ib: "get_implicit_bases S2 12 \<noteq> []" by code_simp
  have eq: "alter_owned_begin E0 drop_owned_p_B S0 ctxB =
              (case inherit_fields E0 drop_owned_p_B S2 ctxB (get_bases S2 12) True of
                 Inl e \<Rightarrow> Inl e
               | Inr schema2 \<Rightarrow>
                   drop_owned_refdicts E0 ctxB (get_refdicts E0 (type_of E0 12))
                     (drop_owned_p_B, schema2))"
    using C6_alter_owned_drop [OF bound sup was now nc] ib by blast
  have ex: "nested_alter_owned_false 31 x \<longleftrightarrow>
     kind (head x) = AlterObject \<and> scls (head x) = Some 31
     \<and> (case ops x of [n] \<Rightarrow> kind (head n) = AlterOwned \<and> scls (head n) = Some 31
            \<and> get_attribute_value n ''is_owned'' = Some (VBool False) \<and> ops n = []
          | _ \<Rightarrow> False)" for x
    by (auto simp add: nested_alter_owned_false_def split: list.splits)
  show ?thesis
    unfolding eq ex by code_simp
qed

subsection \<open>Helper facts for the rename engine\<close>

lemma propagate_ref_op_loop_result:
  assumes "\<forall>d\<in>set ds. get_referrer schema d \<noteq> None"
  shows "propagate_ref_op_loop E schema context refname cb ds self =
     Inr (Cmd (head self) (ops self @ map (\<lambda>d.
        add (init_delta_command E (the (get_referrer schema d)) schema AlterObject id)
          (cb (Cmd ((head (init_delta_command E d schema AlterObject id))
                      \<lparr>ref_op_propagated := True\<rparr>)
                   (ops (init_delta_command E d schema AlterObject id)))
              refname
              (new_context E
                 (Cmd ((head (init_delta_command E d schema AlterObject id))
                         \<lparr>ref_op_propagated := True\<rparr>)
                      (ops (init_delta_command E d schema AlterObject id)))
                 (new_context E
                    (init_delta_command E (the (get_referrer schema d)) schema AlterObject id)
                    context (the (get_referrer schema d))) d))) ds))"
  using assms
proof (induction ds arbitrary: self)
  case Nil
  then show ?case by simp
next
  case (Cons d ds)
  then obtain r where r: "get_referrer schema d = Some r" by auto
  show ?case
    using Cons r by (simp add: Let_def add_def id_def)
qed

lemma E0_rename_cmd_from_ast:
  "kind (head (rename_cmd_from_ast E0 cls s n k)) = fst cls"
  "new_name (head (rename_cmd_from_ast E0 cls s n k)) = Some n"
  by (simp_all add: E0_def)

lemma E0_super_rename_begin: "super_rename_begin E0 c s k = Inr s"
  by (simp add: E0_def)

subsection \<open>C5: renaming an inherited ref\<close>

text \<open>
  Claim C5, as the code has it. A rename command bound to the ref \<open>ob\<close>
  runs \<^verbatim>\<open>_rename_begin\<close>; the generic rename returns \<open>schema1\<close>,
  \<open>context.canonical\<close> is false and \<open>ob\<close> is not generic. If some implicit
  base of \<open>ob\<close> is not in \<open>context.renamed_objs\<close>, the rename fails with the
  \<^verbatim>\<open>SchemaDefinitionError\<close> "cannot rename inherited ..." whose details are
  the non-renamed bases. Otherwise: if a frame of the context stack belongs
  to a referenced-inheriting command marked \<open>ref_op_propagated\<close>, the rename
  succeeds and nothing is propagated; if there is no such frame, a missing
  referrer context is raised as such, and with a referrer context (and every
  descendant having a referrer) the rename succeeds and appends, for every
  ordered descendant in order, an \<^verbatim>\<open>AlterObject\<close> of the descendant's referrer
  wrapping an \<^verbatim>\<open>AlterObject\<close> of the descendant marked \<open>ref_op_propagated\<close>
  wrapping the rename command built for the refname of \<open>ob\<close> (its new short
  name) in the context of these two commands.
\<close>

theorem C5_rename_inherited:
  assumes bound: "scls (head self) = Some ob"
    and sup: "super_rename_begin E self schema context = Inr schema1"
    and nc: "\<not> canonical context"
    and ng: "\<not> generic schema1 ob"
  shows "(\<not> set (get_implicit_bases schema1 ob) \<subseteq> renamed_objs context \<longrightarrow>
            rename_begin E self schema context =
              Inl (SchemaDefinitionError ''cannot rename inherited'' ob
                     (Unordered (set (get_implicit_bases schema1 ob) - renamed_objs context))))
       \<and> (set (get_implicit_bases schema1 ob) \<subseteq> renamed_objs context \<longrightarrow>
            ((\<exists>f\<in>set (stack context).
                 is_ReferencedInheritingObjectCommand E (cmd_class (fr_op f))
                 \<and> ref_op_propagated (head (fr_op f))) \<longrightarrow>
               rename_begin E self schema context = Inr (self, schema1))
          \<and> (\<not> (\<exists>f\<in>set (stack context).
                 is_ReferencedInheritingObjectCommand E (cmd_class (fr_op f))
                 \<and> ref_op_propagated (head (fr_op f))) \<longrightarrow>
               (\<forall>e. get_referrer_context_or_die E (cmd_class self) context = Inl e \<longrightarrow>
                  rename_begin E self schema context = Inl e)
             \<and> (\<forall>rctx. get_referrer_context_or_die E (cmd_class self) context = Inr rctx
                  \<and> (\<forall>d\<in>set (ordered_descendants schema1 ob). get_referrer schema1 d \<noteq> None) \<longrightarrow>
                  (\<exists>self' new.
                     rename_begin E self schema context = Inr (self', schema1)
                   \<and> head self' = head self \<and> ops self' = ops self @ new
                   \<and> list_all2
                       (\<lambda>d a. kind (head a) = AlterObject
                          \<and> scls (head a) = get_referrer schema1 d
                          \<and> (\<exists>b rn. ops a = [b] \<and> kind (head b) = AlterObject
                                \<and> scls (head b) = Some d \<and> ref_op_propagated (head b)
                                \<and> ops b = [rn]
                                \<and> rn = rename_cmd_from_ast E (RenameObject, type_of E ob) schema1
                                         (get_key_for E (type_of E (fr_scls rctx))
                                            (attr (get_refdict_for_class E
                                                     (type_of E (fr_scls rctx)) (type_of E ob)))
                                            schema1 ob)
                                         (new_context E (Cmd (head b) [])
                                            (new_context E (Cmd (head a) []) context
                                               (the (get_referrer schema1 d))) d)))
                       (ordered_descendants schema1 ob) new))))"
proof (intro conjI impI allI)
  assume "\<not> set (get_implicit_bases schema1 ob) \<subseteq> renamed_objs context"
  then show "rename_begin E self schema context =
              Inl (SchemaDefinitionError ''cannot rename inherited'' ob
                     (Unordered (set (get_implicit_bases schema1 ob) - renamed_objs context)))"
    using bound sup nc ng by (simp add: rename_begin_def Let_def)
next
  assume sub: "set (get_implicit_bases schema1 ob) \<subseteq> renamed_objs context"
  then have rb: "rename_begin E self schema context = propagate_ref_rename E self schema1 context ob"
    using bound sup nc ng by (simp add: rename_begin_def Let_def)
  {
    assume "\<exists>f\<in>set (stack context).
                 is_ReferencedInheritingObjectCommand E (cmd_class (fr_op f))
                 \<and> ref_op_propagated (head (fr_op f))"
    then show "rename_begin E self schema context = Inr (self, schema1)"
      by (simp add: rb propagate_ref_rename_def propagate_ref_op_def list_ex_iff)
  }
  {
    fix e
    assume nf: "\<not> (\<exists>f\<in>set (stack context).
                 is_ReferencedInheritingObjectCommand E (cmd_class (fr_op f))
                 \<and> ref_op_propagated (head (fr_op f)))"
      and e: "get_referrer_context_or_die E (cmd_class self) context = Inl e"
    then show "rename_begin E self schema context = Inl e"
      by (auto simp add: rb propagate_ref_rename_def propagate_ref_op_def list_ex_iff)
  }
  {
    fix rctx
    assume nf: "\<not> (\<exists>f\<in>set (stack context).
                 is_ReferencedInheritingObjectCommand E (cmd_class (fr_op f))
                 \<and> ref_op_propagated (head (fr_op f)))"
      and a: "get_referrer_context_or_die E (cmd_class self) context = Inr rctx
                  \<and> (\<forall>d\<in>set (ordered_descendants schema1 ob). get_referrer schema1 d \<noteq> None)"
    define refname where "refname = get_key_for E (type_of E (fr_scls rctx))
                                            (attr (get_refdict_for_class E
                                                     (type_of E (fr_scls rctx)) (type_of E ob)))
                                            schema1 ob"
    define cb where "cb = ref_rename E (RenameObject, type_of E ob) schema1"
    define wrap where "wrap = (\<lambda>d.
        add (init_delta_command E (the (get_referrer schema1 d)) schema1 AlterObject id)
          (cb (Cmd ((head (init_delta_command E d schema1 AlterObject id))
                      \<lparr>ref_op_propagated := True\<rparr>)
                   (ops (init_delta_command E d schema1 AlterObject id)))
              refname
              (new_context E
                 (Cmd ((head (init_delta_command E d schema1 AlterObject id))
                         \<lparr>ref_op_propagated := True\<rparr>)
                      (ops (init_delta_command E d schema1 AlterObject id)))
                 (new_context E
                    (init_delta_command E (the (get_referrer schema1 d)) schema1 AlterObject id)
                    context (the (get_referrer schema1 d))) d)))"
    have loop: "propagate_ref_op_loop E schema1 context refname cb
                  (ordered_descendants schema1 ob) self
                = Inr (Cmd (head self) (ops self @ map wrap (ordered_descendants schema1 ob)))"
      unfolding wrap_def using a by (intro propagate_ref_op_loop_result) simp
    have res: "rename_begin E self schema context
                 = Inr (Cmd (head self) (ops self @ map wrap (ordered_descendants schema1 ob)),
                        schema1)"
      using nf a bound loop
      by (auto simp add: rb propagate_ref_rename_def propagate_ref_op_def list_ex_iff Let_def
          refname_def cb_def)
    have shape: "list_all2
                       (\<lambda>d a. kind (head a) = AlterObject
                          \<and> scls (head a) = get_referrer schema1 d
                          \<and> (\<exists>b rn. ops a = [b] \<and> kind (head b) = AlterObject
                                \<and> scls (head b) = Some d \<and> ref_op_propagated (head b)
                                \<and> ops b = [rn]
                                \<and> rn = rename_cmd_from_ast E (RenameObject, type_of E ob) schema1
                                         refname
                                         (new_context E (Cmd (head b) [])
                                            (new_context E (Cmd (head a) []) context
                                               (the (get_referrer schema1 d))) d)))
                       (ordered_descendants schema1 ob)
                       (map wrap (ordered_descendants schema1 ob))"
      unfolding list_all2_map2
    proof (rule list_all2_all_nthI, simp, intro conjI)
      fix n assume "n < length (ordered_descendants schema1 ob)"
      then have "ordered_descendants schema1 ob ! n \<in> set (ordered_descendants schema1 ob)"
        by simp
      then obtain r where r: "get_referrer schema1 (ordered_descendants schema1 ob ! n) = Some r"
        using a by auto
      let ?d = "ordered_descendants schema1 ob ! n"
      show "kind (head (wrap ?d)) = AlterObject"
        by (simp add: wrap_def add_def init_delta_command_def new_cmd_def)
      show "scls (head (wrap ?d)) = get_referrer schema1 ?d"
        by (simp add: wrap_def add_def init_delta_command_def new_cmd_def r)
      show "\<exists>b rn. ops (wrap ?d) = [b] \<and> kind (head b) = AlterObject
                                \<and> scls (head b) = Some ?d \<and> ref_op_propagated (head b)
                                \<and> ops b = [rn]
                                \<and> rn = rename_cmd_from_ast E (RenameObject, type_of E ob) schema1
                                         refname
                                         (new_context E (Cmd (head b) [])
                                            (new_context E (Cmd (head (wrap ?d)) []) context
                                               (the (get_referrer schema1 ?d))) ?d)"
        by (simp add: wrap_def cb_def ref_rename_def add_def init_delta_command_def new_cmd_def r)
    qed
    show "\<exists>self' new.
                     rename_begin E self schema context = Inr (self', schema1)
                   \<and> head self' = head self \<and> ops self' = ops self @ new
                   \<and> list_all2
                       (\<lambda>d a. kind (head a) = AlterObject
                          \<and> scls (head a) = get_referrer schema1 d
                          \<and> (\<exists>b rn. ops a = [b] \<and> kind (head b) = AlterObject
                                \<and> scls (head b) = Some d \<and> ref_op_propagated (head b)
                                \<and> ops b = [rn]
                                \<and> rn = rename_cmd_from_ast E (RenameObject, type_of E ob) schema1
                                         (get_key_for E (type_of E (fr_scls rctx))
                                            (attr (get_refdict_for_class E
                                                     (type_of E (fr_scls rctx)) (type_of E ob)))
                                            schema1 ob)
                                         (new_context E (Cmd (head b) [])
                                            (new_context E (Cmd (head a) []) context
                                               (the (get_referrer schema1 d))) d)))
                       (ordered_descendants schema1 ob) new"
      using res shape unfolding refname_def
      by (intro exI[of _ "Cmd (head self) (ops self @ map wrap (ordered_descendants schema1 ob))"]
          exI[of _ "map wrap (ordered_descendants schema1 ob)"]) simp
  }
qed

text \<open>
  Worked example: renaming \<open>p@A\<close> inside \<^verbatim>\<open>ALTER TYPE A\<close> appends
  \<^verbatim>\<open>AlterObject(B)\<close> \<open>>\<close> \<^verbatim>\<open>AlterObject(p@B)\<close> \<open>>\<close> \<^verbatim>\<open>Rename\<close> to \<open>p\<close>.
\<close>

theorem C5_rename_inherited_witness:
  "(case rename_begin E0 rename_p_A S0 ctxA of
      Inl e \<Rightarrow> False
    | Inr (c, s) \<Rightarrow>
        (case ops c of
           [a] \<Rightarrow> kind (head a) = AlterObject \<and> scls (head a) = Some 2
             \<and> (case ops a of
                   [b] \<Rightarrow> kind (head b) = AlterObject \<and> scls (head b) = Some 12
                     \<and> ref_op_propagated (head b)
                     \<and> (case ops b of
                           [rn] \<Rightarrow> kind (head rn) = RenameObject
                                   \<and> new_name (head rn) = Some ''p''
                         | _ \<Rightarrow> False)
                 | _ \<Rightarrow> False)
         | _ \<Rightarrow> False))"
proof -
  have bound: "scls (head rename_p_A) = Some 11" by code_simp
  have sup: "super_rename_begin E0 rename_p_A S0 ctxA = Inr S0"
    by (rule E0_super_rename_begin)
  have nc: "\<not> canonical ctxA" by code_simp
  have ng: "\<not> generic S0 11" by code_simp
  have sub: "set (get_implicit_bases S0 11) \<subseteq> renamed_objs ctxA" by code_simp
  have nf: "\<not> (\<exists>f\<in>set (stack ctxA).
                 is_ReferencedInheritingObjectCommand E0 (cmd_class (fr_op f))
                 \<and> ref_op_propagated (head (fr_op f)))"
    by code_simp
  have rc: "get_referrer_context_or_die E0 (cmd_class rename_p_A) ctxA
              = Inr \<lparr>fr_mro = [''ObjectTypeCommandContext''],
                      fr_op = init_delta_command E0 1 S0 AlterObject id, fr_scls = 1\<rparr>"
    by code_simp
  have od: "ordered_descendants S0 11 = [12]" by code_simp
  have dr: "\<forall>d\<in>set (ordered_descendants S0 11). get_referrer S0 d \<noteq> None"
    unfolding od by code_simp
  have r12: "get_referrer S0 12 = Some 2" by code_simp
  have key: "get_key_for E0 (type_of E0 1)
               (attr (get_refdict_for_class E0 (type_of E0 1) (type_of E0 11))) S0 11 = ''p''"
    by code_simp
  have o: "ops rename_p_A = []" by code_simp
  from C5_rename_inherited [OF bound sup nc ng, THEN conjunct2, rule_format, OF sub,
      THEN conjunct2, rule_format, OF nf, THEN conjunct2, rule_format, OF conjI, OF rc dr]
  obtain self' new where
    res: "rename_begin E0 rename_p_A S0 ctxA = Inr (self', S0)"
    and ops: "ops self' = ops rename_p_A @ new"
    and sh: "list_all2
               (\<lambda>d a. kind (head a) = AlterObject
                  \<and> scls (head a) = get_referrer S0 d
                  \<and> (\<exists>b rn. ops a = [b] \<and> kind (head b) = AlterObject
                        \<and> scls (head b) = Some d \<and> ref_op_propagated (head b)
                        \<and> ops b = [rn]
                        \<and> rn = rename_cmd_from_ast E0 (RenameObject, type_of E0 11) S0
                                 (get_key_for E0 (type_of E0 (fr_scls
                                     \<lparr>fr_mro = [''ObjectTypeCommandContext''],
                                       fr_op = init_delta_command E0 1 S0 AlterObject id,
                                       fr_scls = 1\<rparr>))
                                    (attr (get_refdict_for_class E0
                                             (type_of E0 (fr_scls
                                     \<lparr>fr_mro = [''ObjectTypeCommandContext''],
                                       fr_op = init_delta_command E0 1 S0 AlterObject id,
                                       fr_scls = 1\<rparr>)) (type_of E0 11)))
                                    S0 11)
                                 (new_context E0 (Cmd (head b) [])
                                    (new_context E0 (Cmd (head a) []) ctxA
                                       (the (get_referrer S0 d))) d)))
               (ordered_descendants S0 11) new"
    by blast
  from sh obtain a where new: "new = [a]"
    and a: "kind (head a) = AlterObject" "scls (head a) = Some 2"
    and "\<exists>b rn. ops a = [b] \<and> kind (head b) = AlterObject
                        \<and> scls (head b) = Some 12 \<and> ref_op_propagated (head b)
                        \<and> ops b = [rn]
                        \<and> kind (head rn) = RenameObject \<and> new_name (head rn) = Some ''p''"
    unfolding od using key r12
    by (auto simp add: list_all2_Cons1 E0_rename_cmd_from_ast)
  then obtain b rn where b: "ops a = [b]" "kind (head b) = AlterObject"
      "scls (head b) = Some 12" "ref_op_propagated (head b)" "ops b = [rn]"
      "kind (head rn) = RenameObject" "new_name (head rn) = Some ''p''"
    by blast
  show ?thesis
    by (simp add: res ops o new a b)
qed

text \<open>
  The claim as stated fails: inside the frame of a propagated alter the
  rename of \<open>p@A\<close> (not canonical, not generic, no non-renamed implicit
  base) succeeds, but nothing is propagated to its descendant \<open>p@B\<close>.
\<close>

theorem C5_counterexample:
  "\<not> canonical ctxProp \<and> \<not> generic S0 11
   \<and> set (get_implicit_bases S0 11) \<subseteq> renamed_objs ctxProp
   \<and> ordered_descendants S0 11 = [12]
   \<and> (case rename_begin E0 rename_p_A S0 ctxProp of
        Inl e \<Rightarrow> False
      | Inr (c, s) \<Rightarrow> ops c = [])"
  by code_simp

subsection \<open>Helper facts for the propagation of a creation\<close>

lemma classname_from_ast_declared:
  assumes "referrer_context_class E cls = Some c"
  shows "\<exists>n. classname_from_ast E cls schema astnode context = Inr n"
  using assms
  by (simp add: classname_from_ast_def get_referrer_context_def get_referrer_context_class_def
      Let_def split: option.splits)

lemma propagate_ref_creation_child_head:
  assumes "head self2 = head self"
  shows "propagate_ref_creation_child E self2 ob schema context referrer child
     = propagate_ref_creation_child E self ob schema context referrer child"
proof -
  have "cmd_class self2 = cmd_class self" using assms by (simp add: cmd_class_def)
  then show ?thesis
    unfolding propagate_ref_creation_child_def by simp
qed

lemma propagate_ref_creation_loop_result:
  assumes "\<forall>child\<in>set cs. \<exists>a.
             propagate_ref_creation_child E self ob schema context referrer child = Inr a"
    and "head self2 = head self"
  shows "propagate_ref_creation_loop E ob schema context referrer cs self2 =
     Inr (Cmd (head self2) (ops self2 @
       map (\<lambda>child. projr (propagate_ref_creation_child E self ob schema context referrer child))
         (filter (\<lambda>child. allow_ref_propagation E child schema context
                    (get_refdict_for_class E (type_of E referrer) (type_of E ob))) cs)))"
  using assms
proof (induction cs arbitrary: self2)
  case Nil
  then show ?case by (cases self2) auto
next
  case (Cons child cs)
  let ?rd = "get_refdict_for_class E (type_of E referrer) (type_of E ob)"
  let ?g = "\<lambda>child. projr (propagate_ref_creation_child E self ob schema context referrer child)"
  from Cons.prems(1) have rest: "\<forall>child\<in>set cs. \<exists>a.
             propagate_ref_creation_child E self ob schema context referrer child = Inr a"
    by simp
  from Cons.prems(1) obtain a where
    a: "propagate_ref_creation_child E self ob schema context referrer child = Inr a"
    by auto
  have a2: "propagate_ref_creation_child E self2 ob schema context referrer child = Inr a"
    using a propagate_ref_creation_child_head[OF Cons.prems(2)] by simp
  show ?case
  proof (cases "allow_ref_propagation E child schema context ?rd")
    case True
    have h: "head (add self2 a) = head self"
      using Cons.prems(2) by (simp add: add_def)
    have "propagate_ref_creation_loop E ob schema context referrer (child # cs) self2
            = propagate_ref_creation_loop E ob schema context referrer cs (add self2 a)"
      using True a2 by simp
    also have "\<dots> = Inr (Cmd (head (add self2 a)) (ops (add self2 a) @
                 map ?g (filter (\<lambda>child. allow_ref_propagation E child schema context ?rd) cs)))"
      by (rule Cons.IH[OF rest h])
    also have "\<dots> = Inr (Cmd (head self2) (ops self2 @
                 map ?g (filter (\<lambda>child. allow_ref_propagation E child schema context ?rd)
                           (child # cs))))"
      using True a by (simp add: add_def)
    finally show ?thesis .
  next
    case False
    have "propagate_ref_creation_loop E ob schema context referrer (child # cs) self2
            = propagate_ref_creation_loop E ob schema context referrer cs self2"
      using False by simp
    also have "\<dots> = Inr (Cmd (head self2) (ops self2 @
                 map ?g (filter (\<lambda>child. allow_ref_propagation E child schema context ?rd) cs)))"
      by (rule Cons.IH[OF rest Cons.prems(2)])
    also have "\<dots> = Inr (Cmd (head self2) (ops self2 @
                 map ?g (filter (\<lambda>child. allow_ref_propagation E child schema context ?rd)
                           (child # cs))))"
      using False by simp
    finally show ?thesis .
  qed
qed


lemma propagate_ref_creation_child_shape:
  assumes rcc1: "referrer_context_class E (cmd_class self) = Some c1"
    and rcc2: "referrer_context_class E (CreateObject, type_of E ob) = Some c2"
    and battr: "backref_attr rd \<notin> {''name'', ''is_derived''}"
    and rd: "rd = get_refdict_for_class E (type_of E referrer) (type_of E ob)"
    and ast: "astnode = as_inherited_ref_ast E schema
                (get_key_for_name E (type_of E child) (attr rd) schema (get_name schema ob)) ob"
  shows "\<exists>a. propagate_ref_creation_child E self ob schema context referrer child = Inr a
      \<and> kind (head a) = AlterObject \<and> cmd_mcls (head a) = type_of E referrer
      \<and> classname (head a) = get_name schema child
      \<and> (\<exists>ra rb cr fq.
            ops a = [ra, cr]
          \<and> classname_from_ast E (cmd_class self) schema astnode
                (new_context E (Cmd (head a) []) context child) = Inr fq
          \<and> kind (head ra) = AlterObject \<and> classname (head ra) = fq
          \<and> if_exists (head ra) \<and> ops ra = [rb]
          \<and> kind (head rb) = RebaseInheritingObject \<and> classname (head rb) = fq
          \<and> implicit (head rb) \<and> added_bases (head rb) = [] \<and> removed_bases (head rb) = []
          \<and> ops rb = []
          \<and> kind (head cr) = CreateObject \<and> if_not_exists (head cr) \<and> ops cr = []
          \<and> classname_from_ast E (CreateObject, type_of E ob) schema astnode
                (new_context E (Cmd (head a) []) context child) = Inr (classname (head cr))
          \<and> get_attribute_value cr ''name'' = Some (VName (classname (head cr)))
          \<and> get_attribute_value cr (backref_attr rd) = Some (VObj child)
          \<and> get_attribute_value cr ''is_derived''
               = (if get_is_derived schema child then Some (VBool True) else None)
          \<and> (\<forall>k. k \<notin> {''name'', backref_attr rd, ''is_derived''} \<longrightarrow>
                 get_attribute_value cr k = None))"
proof -
  let ?alter = "new_cmd (AlterObject, type_of E referrer) (get_name schema child)"
  let ?ctx = "new_context E ?alter context child"
  obtain fq where fq: "classname_from_ast E (cmd_class self) schema astnode ?ctx = Inr fq"
    using classname_from_ast_declared[OF rcc1] by blast
  obtain fq' where fq': "classname_from_ast E (CreateObject, type_of E ob) schema astnode ?ctx
                           = Inr fq'"
    using classname_from_ast_declared[OF rcc2] by blast
  have al: "Cmd (head ?alter) [] = ?alter"
    by (simp add: new_cmd_def)
  show ?thesis
    using fq fq' battr
    by (auto simp add: propagate_ref_creation_child_def as_inherited_ref_cmd_def Let_def
        rd[symmetric] ast[symmetric] add_def al new_cmd_def set_attribute_value_def
        get_attribute_value_def update_conv')
qed

lemma E0_add_classref: "add_classref E0 s r a ob = s"
  by (simp add: E0_def)

subsection \<open>C3: propagating a creation to the children of the referrer\<close>

text \<open>
  Claim C3, as the code has it. A create command bound to the ref \<open>ob\<close>
  runs \<^verbatim>\<open>_create_ref\<close>; the command classes declare their referrer context
  class and the back-reference field of the RefDict \<open>rd\<close> is a field of its
  own. The ref is first added to the referrer's collection (\<open>schema1\<close>). If
  the ref is not final, the referrer is inheriting, \<open>context.canonical\<close> is
  false and \<open>enable_recursion\<close> is set, then for every child of the referrer
  that allows propagation, in order, one \<^verbatim>\<open>AlterObject\<close> of the child is
  appended, with exactly two nested commands in this order: a conditional
  \<^verbatim>\<open>AlterObject\<close> (\<open>if_exists\<close>) named by the child-local name \<open>fq\<close> of the
  ref, wrapping a rebase marked \<open>implicit\<close> with empty \<open>added_bases\<close> and
  \<open>removed_bases\<close>; and a conditional \<^verbatim>\<open>CreateObject\<close> (\<open>if_not_exists\<close>)
  named by the child-local name, whose attributes are its \<^verbatim>\<open>name\<close>, the
  back-reference to the child and, for a derived child, \<^verbatim>\<open>is_derived\<close>. No
  other attribute is set: the command carries no \<^verbatim>\<open>bases\<close>. If one of the
  four guards fails nothing is appended.
\<close>

theorem C3_propagate_ref_creation:
  assumes bound: "scls (head self) = Some ob"
    and rcc1: "referrer_context_class E (cmd_class self) = Some c1"
    and rcc2: "referrer_context_class E (CreateObject, type_of E ob) = Some c2"
    and battr: "backref_attr rd \<notin> {''name'', ''is_derived''}"
    and rd: "rd = get_refdict_for_class E (type_of E referrer) (type_of E ob)"
    and s1: "schema1 = add_classref E schema referrer (attr rd) ob"
  shows "(\<not> get_is_final schema1 ob \<and> is_InheritingObject E (type_of E referrer)
          \<and> \<not> canonical context \<and> enable_recursion context \<longrightarrow>
          (\<exists>new.
             create_ref E self schema context referrer
               = Inr (Cmd (head self) (ops self @ new), schema1)
           \<and> list_all2
               (\<lambda>child a. kind (head a) = AlterObject \<and> cmd_mcls (head a) = type_of E referrer
                \<and> classname (head a) = get_name schema1 child
                \<and> (\<exists>ra rb cr fq.
                      ops a = [ra, cr]
                    \<and> classname_from_ast E (cmd_class self) schema1
                          (as_inherited_ref_ast E schema1
                             (get_key_for_name E (type_of E child) (attr rd) schema1
                                (get_name schema1 ob)) ob)
                          (new_context E (Cmd (head a) []) context child) = Inr fq
                    \<and> kind (head ra) = AlterObject \<and> classname (head ra) = fq
                    \<and> if_exists (head ra) \<and> ops ra = [rb]
                    \<and> kind (head rb) = RebaseInheritingObject \<and> classname (head rb) = fq
                    \<and> implicit (head rb) \<and> added_bases (head rb) = []
                    \<and> removed_bases (head rb) = [] \<and> ops rb = []
                    \<and> kind (head cr) = CreateObject \<and> if_not_exists (head cr) \<and> ops cr = []
                    \<and> classname_from_ast E (CreateObject, type_of E ob) schema1
                          (as_inherited_ref_ast E schema1
                             (get_key_for_name E (type_of E child) (attr rd) schema1
                                (get_name schema1 ob)) ob)
                          (new_context E (Cmd (head a) []) context child)
                        = Inr (classname (head cr))
                    \<and> get_attribute_value cr ''name'' = Some (VName (classname (head cr)))
                    \<and> get_attribute_value cr (backref_attr rd) = Some (VObj child)
                    \<and> get_attribute_value cr ''is_derived''
                         = (if get_is_derived schema1 child then Some (VBool True) else None)
                    \<and> (\<forall>k. k \<notin> {''name'', backref_attr rd, ''is_derived''} \<longrightarrow>
                           get_attribute_value cr k = None)))
               (filter (\<lambda>child. allow_ref_propagation E child schema1 context rd)
                  (children schema1 referrer))
               new))
       \<and> (\<not> (\<not> get_is_final schema1 ob \<and> is_InheritingObject E (type_of E referrer)
               \<and> \<not> canonical context \<and> enable_recursion context) \<longrightarrow>
            create_ref E self schema context referrer = Inr (self, schema1))"
proof -
  define P where "P = (\<lambda>child a. kind (head a) = AlterObject \<and> cmd_mcls (head a) = type_of E referrer
                \<and> classname (head a) = get_name schema1 child
                \<and> (\<exists>ra rb cr fq.
                      ops a = [ra, cr]
                    \<and> classname_from_ast E (cmd_class self) schema1
                          (as_inherited_ref_ast E schema1
                             (get_key_for_name E (type_of E child) (attr rd) schema1
                                (get_name schema1 ob)) ob)
                          (new_context E (Cmd (head a) []) context child) = Inr fq
                    \<and> kind (head ra) = AlterObject \<and> classname (head ra) = fq
                    \<and> if_exists (head ra) \<and> ops ra = [rb]
                    \<and> kind (head rb) = RebaseInheritingObject \<and> classname (head rb) = fq
                    \<and> implicit (head rb) \<and> added_bases (head rb) = []
                    \<and> removed_bases (head rb) = [] \<and> ops rb = []
                    \<and> kind (head cr) = CreateObject \<and> if_not_exists (head cr) \<and> ops cr = []
                    \<and> classname_from_ast E (CreateObject, type_of E ob) schema1
                          (as_inherited_ref_ast E schema1
                             (get_key_for_name E (type_of E child) (attr rd) schema1
                                (get_name schema1 ob)) ob)
                          (new_context E (Cmd (head a) []) context child)
                        = Inr (classname (head cr))
                    \<and> get_attribute_value cr ''name'' = Some (VName (classname (head cr)))
                    \<and> get_attribute_value cr (backref_attr rd) = Some (VObj child)
                    \<and> get_attribute_value cr ''is_derived''
                         = (if get_is_derived schema1 child then Some (VBool True) else None)
                    \<and> (\<forall>k. k \<notin> {''name'', backref_attr rd, ''is_derived''} \<longrightarrow>
                           get_attribute_value cr k = None)))"
  define g where "g = (\<lambda>child.
    projr (propagate_ref_creation_child E self ob schema1 context referrer child))"
  have child: "\<exists>a. propagate_ref_creation_child E self ob schema1 context referrer child = Inr a
                 \<and> P child a" for child
    unfolding P_def
    by (rule propagate_ref_creation_child_shape[OF rcc1 rcc2 battr rd refl])
  then have ex: "\<forall>child\<in>set (children schema1 referrer). \<exists>a.
             propagate_ref_creation_child E self ob schema1 context referrer child = Inr a"
    by blast
  have Pg: "P child (g child)" for child
    using child[of child] by (auto simp add: g_def)
  have loop: "propagate_ref_creation_loop E ob schema1 context referrer
                (children schema1 referrer) self
              = Inr (Cmd (head self) (ops self @ map g
                  (filter (\<lambda>child. allow_ref_propagation E child schema1 context rd)
                     (children schema1 referrer))))"
    unfolding g_def rd by (rule propagate_ref_creation_loop_result[OF ex refl])
  have yes: "\<not> get_is_final schema1 ob \<and> is_InheritingObject E (type_of E referrer)
          \<and> \<not> canonical context \<and> enable_recursion context \<Longrightarrow>
          create_ref E self schema context referrer
               = Inr (Cmd (head self) (ops self @ map g
                  (filter (\<lambda>child. allow_ref_propagation E child schema1 context rd)
                     (children schema1 referrer))), schema1)"
    using bound loop
    by (simp add: create_ref_def Let_def rd[symmetric] s1[symmetric] propagate_ref_creation_def)
  have sh: "list_all2 P
               (filter (\<lambda>child. allow_ref_propagation E child schema1 context rd)
                  (children schema1 referrer))
               (map g (filter (\<lambda>child. allow_ref_propagation E child schema1 context rd)
                  (children schema1 referrer)))"
    by (simp add: list_all2_map2 list_all2_same Pg)
  have no: "\<not> (\<not> get_is_final schema1 ob \<and> is_InheritingObject E (type_of E referrer)
               \<and> \<not> canonical context \<and> enable_recursion context) \<Longrightarrow>
            create_ref E self schema context referrer = Inr (self, schema1)"
    using bound
    by (auto simp add: create_ref_def Let_def rd[symmetric] s1[symmetric])
  have "(\<not> get_is_final schema1 ob \<and> is_InheritingObject E (type_of E referrer)
          \<and> \<not> canonical context \<and> enable_recursion context \<longrightarrow>
          (\<exists>new.
             create_ref E self schema context referrer
               = Inr (Cmd (head self) (ops self @ new), schema1)
           \<and> list_all2 P
               (filter (\<lambda>child. allow_ref_propagation E child schema1 context rd)
                  (children schema1 referrer))
               new))
       \<and> (\<not> (\<not> get_is_final schema1 ob \<and> is_InheritingObject E (type_of E referrer)
               \<and> \<not> canonical context \<and> enable_recursion context) \<longrightarrow>
            create_ref E self schema context referrer = Inr (self, schema1))"
    using yes sh no by blast
  then show ?thesis
    unfolding P_def .
qed

text \<open>
  Worked example: creating \<open>p\<close> on \<open>A\<close> appends \<^verbatim>\<open>AlterObject(B)\<close> with the
  conditional alter and rebase of \<open>p@B\<close>, then the conditional create of
  \<open>p@B\<close> pointing back to \<open>B\<close>.
\<close>

theorem C3_propagate_ref_creation_witness:
  "(case create_ref E0 create_p_A_bound S0 ctxA 1 of
      Inl e \<Rightarrow> False
    | Inr (c, s) \<Rightarrow>
        (case ops c of
           [a] \<Rightarrow> kind (head a) = AlterObject \<and> classname (head a) = ''B''
             \<and> (case ops a of
                   [ra, cr] \<Rightarrow>
                     kind (head ra) = AlterObject \<and> if_exists (head ra)
                   \<and> (case ops ra of
                         [rb] \<Rightarrow> kind (head rb) = RebaseInheritingObject \<and> implicit (head rb)
                                 \<and> added_bases (head rb) = [] \<and> removed_bases (head rb) = []
                       | _ \<Rightarrow> False)
                   \<and> kind (head cr) = CreateObject \<and> if_not_exists (head cr)
                   \<and> get_attribute_value cr ''source'' = Some (VObj 2)
                   \<and> get_attribute_value cr ''bases'' = None
                 | _ \<Rightarrow> False)
         | _ \<Rightarrow> False))"
proof -
  have bound: "scls (head create_p_A_bound) = Some 11" by code_simp
  have rcc1: "referrer_context_class E0 (cmd_class create_p_A_bound)
                = Some ''ObjectTypeCommandContext''" by code_simp
  have rcc2: "referrer_context_class E0 (CreateObject, type_of E0 11)
                = Some ''ObjectTypeCommandContext''" by code_simp
  have battr: "backref_attr rd0 \<notin> {''name'', ''is_derived''}" by code_simp
  have rd: "rd0 = get_refdict_for_class E0 (type_of E0 1) (type_of E0 11)" by code_simp
  have s1: "S0 = add_classref E0 S0 1 (attr rd0) 11" by (simp add: E0_add_classref)
  have guards: "\<not> get_is_final S0 11 \<and> is_InheritingObject E0 (type_of E0 1)
          \<and> \<not> canonical ctxA \<and> enable_recursion ctxA" by code_simp
  have ch: "filter (\<lambda>child. allow_ref_propagation E0 child S0 ctxA rd0) (children S0 1) = [2]"
    by code_simp
  have nB: "get_name S0 2 = ''B''" by code_simp
  have o: "ops create_p_A_bound = []" by code_simp
  have bs: "''bases'' \<notin> {''name'', backref_attr rd0, ''is_derived''}" by code_simp
  have src: "backref_attr rd0 = ''source''" by code_simp
  from C3_propagate_ref_creation [OF bound rcc1 rcc2 battr rd s1, THEN conjunct1,
      rule_format, OF guards]
  obtain new where
    res: "create_ref E0 create_p_A_bound S0 ctxA 1
            = Inr (Cmd (head create_p_A_bound) (ops create_p_A_bound @ new), S0)"
    and sh: "list_all2
               (\<lambda>child a. kind (head a) = AlterObject \<and> cmd_mcls (head a) = type_of E0 1
                \<and> classname (head a) = get_name S0 child
                \<and> (\<exists>ra rb cr fq.
                      ops a = [ra, cr]
                    \<and> classname_from_ast E0 (cmd_class create_p_A_bound) S0
                          (as_inherited_ref_ast E0 S0
                             (get_key_for_name E0 (type_of E0 child) (attr rd0) S0
                                (get_name S0 11)) 11)
                          (new_context E0 (Cmd (head a) []) ctxA child) = Inr fq
                    \<and> kind (head ra) = AlterObject \<and> classname (head ra) = fq
                    \<and> if_exists (head ra) \<and> ops ra = [rb]
                    \<and> kind (head rb) = RebaseInheritingObject \<and> classname (head rb) = fq
                    \<and> implicit (head rb) \<and> added_bases (head rb) = []
                    \<and> removed_bases (head rb) = [] \<and> ops rb = []
                    \<and> kind (head cr) = CreateObject \<and> if_not_exists (head cr) \<and> ops cr = []
                    \<and> classname_from_ast E0 (CreateObject, type_of E0 11) S0
                          (as_inherited_ref_ast E0 S0
                             (get_key_for_name E0 (type_of E0 child) (attr rd0) S0
                                (get_name S0 11)) 11)
                          (new_context E0 (Cmd (head a) []) ctxA child)
                        = Inr (classname (head cr))
                    \<and> get_attribute_value cr ''name'' = Some (VName (classname (head cr)))
                    \<and> get_attribute_value cr (backref_attr rd0) = Some (VObj child)
                    \<and> get_attribute_value cr ''is_derived''
                         = (if get_is_derived S0 child then Some (VBool True) else None)
                    \<and> (\<forall>k. k \<notin> {''name'', backref_attr rd0, ''is_derived''} \<longrightarrow>
                           get_attribute_value cr k = None)))
               (filter (\<lambda>child. allow_ref_propagation E0 child S0 ctxA rd0)
                  (children S0 1))
               new"
    by blast
  from sh obtain a ra rb cr where new: "new = [a]"
    and a: "kind (head a) = AlterObject" "classname (head a) = ''B''" "ops a = [ra, cr]"
    and ra: "kind (head ra) = AlterObject" "if_exists (head ra)" "ops ra = [rb]"
    and rb: "kind (head rb) = RebaseInheritingObject" "implicit (head rb)"
      "added_bases (head rb) = []" "removed_bases (head rb) = []"
    and cr: "kind (head cr) = CreateObject" "if_not_exists (head cr)"
      "get_attribute_value cr ''source'' = Some (VObj 2)"
      "get_attribute_value cr ''bases'' = None"
    unfolding ch using nB bs src
    by (auto simp add: list_all2_Cons1)
  show ?thesis
    using res by (simp add: o new a ra rb cr)
qed

text \<open>
  The claim as stated fails: with all four guards true and the child \<open>B\<close>
  allowing propagation, the conditional create has the attributes \<^verbatim>\<open>name\<close>
  and \<^verbatim>\<open>source\<close> only; the parent ref \<open>p@A\<close> is not its base, it has no
  \<^verbatim>\<open>bases\<close> attribute at all.
\<close>

theorem C3_counterexample:
  "\<not> get_is_final S0 11 \<and> is_InheritingObject E0 (type_of E0 1)
   \<and> \<not> canonical ctxA \<and> enable_recursion ctxA
   \<and> children S0 1 = [2] \<and> allow_ref_propagation E0 2 S0 ctxA rd0
   \<and> (case create_ref E0 create_p_A_bound S0 ctxA 1 of
        Inl e \<Rightarrow> False
      | Inr (c, s) \<Rightarrow>
          (case ops c of
             [a] \<Rightarrow>
               (case ops a of
                  [ra, cr] \<Rightarrow> kind (head cr) = CreateObject \<and> if_not_exists (head cr)
                    \<and> get_attribute_value cr ''bases'' = None
                    \<and> attrs (head cr) = [(''name'', VName ''p@B''), (''source'', VObj 2)]
                | _ \<Rightarrow> False)
           | _ \<Rightarrow> False))"
  by code_simp

end
